theory Spec2Isabelle
  imports
    Main
    "HOL-Library.AList"
    "HOL-Library.Char_ord"
    "HOL-Library.List_Lexorder"
    "HOL-Library.Option_ord"
    "HOL-Library.Sublist"
begin

section \<open>The OTX to MongoDB connector (\<^verbatim>\<open>etl_connector.py\<close>)\<close>

text \<open>
  A shallow embedding of \<^verbatim>\<open>src/etl_connector.py\<close>. Values decoded from JSON are
  modelled by the datatype \<open>json\<close>; a Python \<^verbatim>\<open>dict\<close> is an association list with
  the insertion order of the interpreter, and \<^verbatim>\<open>d[k] = v\<close> is \<open>AList.update\<close>
  (replace in place, else append). Python's \<^verbatim>\<open>None\<close> is \<open>JNull\<close>. JSON numbers are
  integers here; floating point values are left out. Strings are Isabelle strings and
  are compared as Python compares \<^verbatim>\<open>str\<close>: lexicographically by character code.
  Exceptions are values: a function that can raise returns its exception beside the
  state it has reached. The HTTP transport (the \<^verbatim>\<open>requests\<close> session with its
  retry adapter), the clock, the UUID generator, the builtin \<^verbatim>\<open>hash\<close> and the
  outcome of writing the watermark file are parameters, collected in the record
  \<open>environment\<close>. The document store is a list of documents.
\<close>

subsection \<open>JSON values and the Python operations used on them\<close>

datatype json =
    JNull
  | JBool bool
  | JInt int
  | JStr string
  | JList "json list"
  | JDict "(string \<times> json) list"

type_synonym doc = "(string \<times> json) list"

text \<open>Truth value testing (\<^verbatim>\<open>if x:\<close>, \<^verbatim>\<open>x or y\<close>).\<close>

fun truthy :: "json \<Rightarrow> bool" where
  "truthy JNull = False"
| "truthy (JBool b) = b"
| "truthy (JInt i) = (i \<noteq> 0)"
| "truthy (JStr s) = (s \<noteq> [])"
| "truthy (JList xs) = (xs \<noteq> [])"
| "truthy (JDict kvs) = (kvs \<noteq> [])"

definition py_or :: "json \<Rightarrow> json \<Rightarrow> json" where
  "py_or a b = (if truthy a then a else b)"

text \<open>\<^verbatim>\<open>d.get(k)\<close>: the value stored under \<open>k\<close>, or \<^verbatim>\<open>None\<close>.\<close>

definition dict_get :: "doc \<Rightarrow> string \<Rightarrow> json" where
  "dict_get d k = (case map_of d k of None \<Rightarrow> JNull | Some v \<Rightarrow> v)"

text \<open>A dict comprehension stores its items one after the other.\<close>

definition dict_of :: "doc \<Rightarrow> doc" where
  "dict_of kvs = foldl (\<lambda>d (k, v). AList.update k v d) [] kvs"

definition type_name :: "json \<Rightarrow> string" where
  "type_name v = (case v of JNull \<Rightarrow> ''NoneType'' | JBool _ \<Rightarrow> ''bool'' | JInt _ \<Rightarrow> ''int''
     | JStr _ \<Rightarrow> ''str'' | JList _ \<Rightarrow> ''list'' | JDict _ \<Rightarrow> ''dict'')"

datatype exn =
    RuntimeError string
  | SystemExit string
  | RequestException string
  | ValueError string
  | AttributeError string
  | TypeError string

fun exn_str :: "exn \<Rightarrow> string" where
  "exn_str (RuntimeError m) = m"
| "exn_str (SystemExit m) = m"
| "exn_str (RequestException m) = m"
| "exn_str (ValueError m) = m"
| "exn_str (AttributeError m) = m"
| "exn_str (TypeError m) = m"

definition quoted :: "string \<Rightarrow> string" where
  "quoted s = [CHR 0x27] @ s @ [CHR 0x27]"

definition no_get :: "json \<Rightarrow> exn" where
  "no_get v = AttributeError (quoted (type_name v) @ '' object has no attribute '' @ quoted ''get'')"

text \<open>Python's \<^verbatim>\<open>==\<close> and \<^verbatim>\<open>>\<close> on decoded JSON. \<^verbatim>\<open>bool\<close> is a subtype of
  \<^verbatim>\<open>int\<close>; a comparison between other different types raises \<^verbatim>\<open>TypeError\<close>
  (\<open>None\<close> here).\<close>

fun py_num :: "json \<Rightarrow> int option" where
  "py_num (JInt i) = Some i"
| "py_num (JBool b) = Some (if b then 1 else 0)"
| "py_num v = None"

fun py_eq :: "json \<Rightarrow> json \<Rightarrow> bool" where
  "py_eq (JList xs) (JList ys) = list_all2 py_eq xs ys"
| "py_eq (JDict d) (JDict e) =
     (set (map fst d) = set (map fst e) \<and>
      list_all (\<lambda>(k, v). case map_of e k of None \<Rightarrow> False | Some w \<Rightarrow> py_eq v w) d)"
| "py_eq a b = (case (py_num a, py_num b) of (Some i, Some j) \<Rightarrow> i = j | _ \<Rightarrow> a = b)"

fun py_gt :: "json \<Rightarrow> json \<Rightarrow> bool option" where
  "py_gt (JStr s) (JStr t) = Some (t < s)"
| "py_gt (JList []) (JList ys) = Some False"
| "py_gt (JList (x # xs)) (JList []) = Some True"
| "py_gt (JList (x # xs)) (JList (y # ys)) =
     (if py_eq x y then py_gt (JList xs) (JList ys) else py_gt x y)"
| "py_gt a b = (case (py_num a, py_num b) of (Some i, Some j) \<Rightarrow> Some (j < i) | _ \<Rightarrow> None)"

text \<open>\<^verbatim>\<open>for p in v\<close>: the items a \<^verbatim>\<open>for\<close> loop over \<open>v\<close> visits.\<close>

definition py_iter :: "json \<Rightarrow> exn + json list" where
  "py_iter v = (case v of
       JList xs \<Rightarrow> Inr xs
     | JStr s \<Rightarrow> Inr (map (\<lambda>c. JStr [c]) s)
     | JDict d \<Rightarrow> Inr (map (\<lambda>(k, _). JStr k) d)
     | _ \<Rightarrow> Inl (TypeError (quoted (type_name v) @ '' object is not iterable'')))"

text \<open>\<^verbatim>\<open>'?' in v\<close>.\<close>

definition has_qmark :: "json \<Rightarrow> exn + bool" where
  "has_qmark v = (case v of
       JStr s \<Rightarrow> Inr (CHR ''?'' \<in> set s)
     | JList xs \<Rightarrow> Inr (JStr ''?'' \<in> set xs)
     | JDict d \<Rightarrow> Inr (''?'' \<in> fst ` set d)
     | _ \<Rightarrow> Inl (TypeError (''argument of type '' @ quoted (type_name v) @ '' is not iterable'')))"

text \<open>\<^verbatim>\<open>str(n)\<close> for an integer, as an f-string prints it.\<close>

function str_nat :: "nat \<Rightarrow> string" where
  "str_nat n = (if n < 10 then [char_of (48 + n)] else str_nat (n div 10) @ [char_of (48 + n mod 10)])"
  by pat_completeness auto
termination
  by (relation "measure id") auto

declare str_nat.simps [simp del]

definition str_int :: "int \<Rightarrow> string" where
  "str_int i = (if i < 0 then ''-'' @ str_nat (nat (- i)) else str_nat (nat i))"

subsection \<open>Key rewriting\<close>

definition safe_key :: "string \<Rightarrow> string" where
  "safe_key key =
     dropWhile (\<lambda>c. c = CHR ''$'') (map (\<lambda>c. if c = CHR ''.'' then CHR ''_'' else c) key)"

fun make_mongo_safe :: "json \<Rightarrow> json" where
  "make_mongo_safe (JDict kvs) =
     JDict (dict_of (map (\<lambda>(k, v). (safe_key k, make_mongo_safe v)) kvs))"
| "make_mongo_safe (JList xs) = JList (map make_mongo_safe xs)"
| "make_mongo_safe obj = obj"

text \<open>Every mapping key of a value, at every nesting depth.\<close>

fun all_keys :: "json \<Rightarrow> string list" where
  "all_keys (JDict kvs) = concat (map (\<lambda>(k, v). k # all_keys v) kvs)"
| "all_keys (JList xs) = concat (map all_keys xs)"
| "all_keys obj = []"

definition storage_safe :: "string \<Rightarrow> bool" where
  "storage_safe k \<longleftrightarrow> CHR ''.'' \<notin> set k \<and> take 1 k \<noteq> ''$''"

subsection \<open>Configuration, environment and effects\<close>

text \<open>The values \<^verbatim>\<open>run\<close> reads from the process environment and the command line.\<close>

record config =
  cfg_api_key :: "string option"
  cfg_mongo_db :: string
  cfg_mongo_collection :: string
  cfg_page_limit :: int
  cfg_default_since :: string
  cfg_watermark_file :: string
  cfg_since :: "string option"
  cfg_no_watermark :: bool
  cfg_dry_run :: bool

record request =
  req_url :: json
  req_headers :: "(string \<times> string) list"
  req_params :: "doc option"

record response =
  status_code :: int
  body_text :: string
  body_json :: "string + json"

text \<open>
  \<open>env_session\<close> answers a GET request with a response, or with the message of the
  exception the transport raises once its retries are used up; \<open>body_json\<close> is what
  \<^verbatim>\<open>r.json()\<close> returns, or the message of its decoding error.
  \<open>env_now k\<close> is what the \<open>k\<close>-th call of \<^verbatim>\<open>iso_now()\<close> returns, \<open>env_uuid4\<close> the
  run identifier drawn at start, \<open>env_hash_dumps doc\<close> stands for
  \<^verbatim>\<open>hash(json.dumps(doc, sort_keys=True))\<close>, and \<open>env_write_error\<close> is the message
  of the error raised when the watermark file is opened for writing, if any.
\<close>

record environment =
  env_session :: "request \<Rightarrow> string + response"
  env_uuid4 :: string
  env_now :: "nat \<Rightarrow> string"
  env_hash_dumps :: "doc \<Rightarrow> int"
  env_write_error :: "string option"

text \<open>The watermark file: missing, present but not readable as JSON, or holding a value.\<close>

datatype file_state = Missing | Unparseable | Parsed json

text \<open>The lines printed on standard output, with the values their f-strings format.\<close>

datatype out_line =
    Authenticated json json json
  | PageProgress nat nat nat bool
  | Done nat string string
  | DryRunDone nat
  | WatermarkSaved json string

record effects =
  requests :: "request list"
  mongo_connected :: bool
  mongo_docs :: "doc list"
  watermark_fs :: file_state
  stdout :: "out_line list"
  stderr :: "string list"

subsection \<open>Watermark file\<close>

definition load_watermark :: "string \<Rightarrow> file_state \<Rightarrow> json" where
  "load_watermark path fs =
     (if path = [] \<or> fs = Missing then JNull
      else case fs of
          Parsed (JDict data) \<Rightarrow> dict_get data ''modified_since''
        | _ \<Rightarrow> JNull)"

text \<open>Returns the new file state and the warning printed, if any.\<close>

definition save_watermark :: "environment \<Rightarrow> string \<Rightarrow> json \<Rightarrow> file_state \<Rightarrow> file_state \<times> string list" where
  "save_watermark env path iso_ts fs =
     (if path = [] then (fs, [])
      else case env_write_error env of
          Some e \<Rightarrow> (fs, [''[warn] could not persist watermark: '' @ e])
        | None \<Rightarrow> (Parsed (JDict [(''modified_since'', iso_ts)]), []))"

text \<open>Lines 169 to 172 of \<^verbatim>\<open>run\<close>: the resume point.\<close>

definition resume_point :: "config \<Rightarrow> file_state \<Rightarrow> json" where
  "resume_point cfg fs =
     (let since_cli = (case cfg_since cfg of None \<Rightarrow> JNull | Some s \<Rightarrow> JStr s);
          since_env = py_or (JStr (cfg_default_since cfg)) JNull;
          since_file = (if cfg_no_watermark cfg then JNull
                        else load_watermark (cfg_watermark_file cfg) fs)
      in py_or (py_or since_cli since_file) since_env)"

subsection \<open>HTTP: identity check and paginated extraction\<close>

definition OTX_BASE :: string where
  "OTX_BASE = ''https://otx.alienvault.com''"

definition OTX_PULSES_SUBSCRIBED :: string where
  "OTX_PULSES_SUBSCRIBED = ''/api/v1/pulses/subscribed''"

definition OTX_USER_ME :: string where
  "OTX_USER_ME = ''/api/v1/users/me''"

text \<open>\<^verbatim>\<open>urljoin\<close> of a base without a path and an absolute path.\<close>

definition urljoin :: "string \<Rightarrow> string \<Rightarrow> string" where
  "urljoin base path = base @ path"

definition otx_headers :: "string \<Rightarrow> (string \<times> string) list" where
  "otx_headers key = [(''X-OTX-API-KEY'', key)]"

definition validate_request :: "string \<Rightarrow> request" where
  "validate_request key =
     \<lparr>req_url = JStr (urljoin OTX_BASE OTX_USER_ME), req_headers = otx_headers key,
      req_params = None\<rparr>"

definition validate_api_key :: "environment \<Rightarrow> string \<Rightarrow> exn + json" where
  "validate_api_key env key =
     (case env_session env (validate_request key) of
        Inl m \<Rightarrow> Inl (RequestException m)
      | Inr r \<Rightarrow>
          if status_code r \<noteq> 200
          then Inl (RuntimeError (''OTX API key validation failed: '' @ str_int (status_code r)
                                  @ '' '' @ take 200 (body_text r)))
          else (case body_json r of Inl m \<Rightarrow> Inl (ValueError m) | Inr v \<Rightarrow> Inr v))"

text \<open>
  The generator \<^verbatim>\<open>fetch_pulses\<close> together with the \<^verbatim>\<open>for\<close> loop that consumes it:
  \<open>body\<close> is the loop body, run on each page before the generator resumes, and the
  loop ends at the first exception of either. The result holds the requests issued.
  A chain of pages that never ends gives \<open>None\<close>.
\<close>

partial_function (option) fetch_loop ::
  "environment \<Rightarrow> (string \<times> string) list \<Rightarrow> (json \<Rightarrow> 's \<Rightarrow> exn option \<times> 's) \<Rightarrow>
   json \<Rightarrow> doc option \<Rightarrow> request list \<times> 's \<Rightarrow> (exn option \<times> request list \<times> 's) option"
where
  "fetch_loop env headers body url params st =
     (if \<not> truthy url then Some (None, st)
      else case has_qmark url of
          Inl e \<Rightarrow> Some (Some e, st)
        | Inr q \<Rightarrow>
            let rq = \<lparr>req_url = url, req_headers = headers,
                      req_params = (if \<not> q then params else None)\<rparr>;
                rqs = fst st @ [rq]
            in case env_session env rq of
                Inl m \<Rightarrow> Some (Some (RequestException m), rqs, snd st)
              | Inr r \<Rightarrow>
                  if status_code r \<noteq> 200
                  then Some (Some (RuntimeError (''Fetch error: '' @ str_int (status_code r)
                                                 @ '' '' @ take 200 (body_text r))), rqs, snd st)
                  else (case body_json r of
                      Inl m \<Rightarrow> Some (Some (ValueError m), rqs, snd st)
                    | Inr data \<Rightarrow>
                        (case body data (snd st) of
                            (Some e, s) \<Rightarrow> Some (Some e, rqs, s)
                          | (None, s) \<Rightarrow>
                              (case data of
                                  JDict d \<Rightarrow>
                                    fetch_loop env headers body (dict_get d ''next'') None (rqs, s)
                                | _ \<Rightarrow> Some (Some (no_get data), rqs, s)))))"

definition fetch_params :: "int \<Rightarrow> json \<Rightarrow> doc" where
  "fetch_params limit modified_since =
     (if truthy modified_since
      then [(''limit'', JInt limit), (''modified_since'', modified_since)]
      else [(''limit'', JInt limit)])"

definition fetch_pulses ::
  "environment \<Rightarrow> string \<Rightarrow> int \<Rightarrow> json \<Rightarrow> (json \<Rightarrow> 's \<Rightarrow> exn option \<times> 's) \<Rightarrow>
   request list \<times> 's \<Rightarrow> (exn option \<times> request list \<times> 's) option" where
  "fetch_pulses env key limit modified_since body st =
     fetch_loop env (otx_headers key) body (JStr (urljoin OTX_BASE OTX_PULSES_SUBSCRIBED))
       (Some (fetch_params limit modified_since)) st"

text \<open>The loop body that only keeps the pages it is given.\<close>

definition collect :: "json \<Rightarrow> json list \<Rightarrow> exn option \<times> json list" where
  "collect page pages = (None, pages @ [page])"

text \<open>
  A finite chain of pages: the transport answers the request for \<open>url\<close> with status
  200 and the first page, each page is a mapping whose \<^verbatim>\<open>next\<close> leads to the
  following page, and the last page has no \<^verbatim>\<open>next\<close>.
\<close>

fun page_chain ::
  "environment \<Rightarrow> (string \<times> string) list \<Rightarrow> json \<Rightarrow> doc option \<Rightarrow> json list \<Rightarrow> bool" where
  "page_chain env headers url params [] = (\<not> truthy url)"
| "page_chain env headers url params (page # rest) =
     (case url of
        JStr u \<Rightarrow>
          u \<noteq> [] \<and>
          (case env_session env \<lparr>req_url = url, req_headers = headers,
                                 req_params = (if CHR ''?'' \<notin> set u then params else None)\<rparr> of
             Inl m \<Rightarrow> False
           | Inr r \<Rightarrow>
               status_code r = 200 \<and> body_json r = Inr page \<and>
               (case page of
                  JDict d \<Rightarrow> page_chain env headers (dict_get d ''next'') None rest
                | _ \<Rightarrow> False))
      | _ \<Rightarrow> False)"

subsection \<open>The document store\<close>

text \<open>
  The collection is a list of documents. \<open>update_one flt new docs\<close> stands for
  \<^verbatim>\<open>collection.update_one(flt, {"$set": new}, upsert=True)\<close>: the first document
  that agrees with every field of the filter gets the fields of \<open>new\<close>; when there is none,
  a new document is made of the filter's fields and then those of \<open>new\<close>. A filter value
  agrees with a stored field that equals it and with a stored array that contains it;
  the filter value \<^verbatim>\<open>None\<close> agrees with a document that lacks the field. The store's
  own \<^verbatim>\<open>_id\<close> field is left out, and a write is taken to succeed.
\<close>

definition field_matches :: "json \<Rightarrow> json \<Rightarrow> bool" where
  "field_matches stored v \<longleftrightarrow>
     stored = v \<or> (case stored of JList xs \<Rightarrow> v \<in> set xs | _ \<Rightarrow> False)"

definition matches :: "doc \<Rightarrow> doc \<Rightarrow> bool" where
  "matches flt d = list_all (\<lambda>(k, v). field_matches (dict_get d k) v) flt"

definition apply_set :: "doc \<Rightarrow> doc \<Rightarrow> doc" where
  "apply_set new d = foldl (\<lambda>d (k, v). AList.update k v d) d new"

fun update_one :: "doc \<Rightarrow> doc \<Rightarrow> doc list \<Rightarrow> doc list" where
  "update_one flt new [] = [apply_set new flt]"
| "update_one flt new (d # ds) =
     (if matches flt d then apply_set new d # ds else d # update_one flt new ds)"

definition natural_key :: "environment \<Rightarrow> doc \<Rightarrow> doc" where
  "natural_key env doc =
     (let key = [(''id'', dict_get doc ''id''), (''revision'', dict_get doc ''revision'')]
      in if dict_get key ''id'' = JNull then [(''_hash'', JInt (env_hash_dumps env doc))] else key)"

definition upsert_pulse :: "environment \<Rightarrow> doc list \<Rightarrow> doc \<Rightarrow> doc list" where
  "upsert_pulse env collection doc = update_one (natural_key env doc) doc collection"

subsection \<open>The run\<close>

text \<open>The local variables of \<^verbatim>\<open>run\<close> that its loop changes, with the collection's
  contents, the number of calls of \<^verbatim>\<open>iso_now()\<close> made and the lines printed.\<close>

record loop_state =
  collection_docs :: "doc list"
  latest_modified_seen :: json
  page_no :: nat
  docs_ingested :: nat
  now_calls :: nat
  printed :: "out_line list"

text \<open>Lines 193 to 196: the envelope is stored into the rewritten record.\<close>

definition add_envelope :: "environment \<Rightarrow> nat \<Rightarrow> nat \<Rightarrow> doc \<Rightarrow> doc" where
  "add_envelope env k pno d =
     AList.update ''page_no'' (JInt (int pno))
       (AList.update ''run_id'' (JStr (env_uuid4 env))
         (AList.update ''ingested_at'' (JStr (env_now env k))
           (AList.update ''_source'' (JStr ''otx_pulses_subscribed'') d)))"

text \<open>Lines 199 to 205: the watermark after one more record; an exception raised by
  the comparison is swallowed.\<close>

definition track_modified :: "json \<Rightarrow> doc \<Rightarrow> json" where
  "track_modified latest p =
     (let mod_ts = py_or (dict_get p ''modified'') (dict_get p ''created'')
      in if truthy mod_ts
         then (if latest = JNull then mod_ts
               else case py_gt mod_ts latest of Some True \<Rightarrow> mod_ts | _ \<Rightarrow> latest)
         else latest)"

definition no_item_assignment :: "json \<Rightarrow> exn" where
  "no_item_assignment v =
     (case v of
        JList _ \<Rightarrow> TypeError ''list indices must be integers or slices, not str''
      | _ \<Rightarrow> TypeError (quoted (type_name v) @ '' object does not support item assignment''))"

definition process_record ::
  "environment \<Rightarrow> config \<Rightarrow> json \<Rightarrow> loop_state \<Rightarrow> exn option \<times> loop_state" where
  "process_record env cfg p st =
     (case (p, make_mongo_safe p) of
        (JDict raw, JDict safe) \<Rightarrow>
          let doc = add_envelope env (now_calls st) (page_no st) safe
          in (None,
              st\<lparr>now_calls := now_calls st + 1,
                 latest_modified_seen := track_modified (latest_modified_seen st) raw,
                 collection_docs := (if cfg_dry_run cfg then collection_docs st
                                     else upsert_pulse env (collection_docs st) doc),
                 docs_ingested := docs_ingested st + 1\<rparr>)
      | (_, v) \<Rightarrow> (Some (no_item_assignment v), st))"

fun process_records ::
  "environment \<Rightarrow> config \<Rightarrow> json list \<Rightarrow> loop_state \<Rightarrow> exn option \<times> loop_state" where
  "process_records env cfg [] st = (None, st)"
| "process_records env cfg (p # ps) st =
     (case process_record env cfg p st of
        (Some e, st') \<Rightarrow> (Some e, st')
      | (None, st') \<Rightarrow> process_records env cfg ps st')"

text \<open>\<^verbatim>\<open>page.get("results", [])\<close>.\<close>

definition page_results :: "doc \<Rightarrow> json" where
  "page_results pd = (case map_of pd ''results'' of None \<Rightarrow> JList [] | Some v \<Rightarrow> v)"

text \<open>Lines 188 to 211: the body of the loop over the pages.\<close>

definition process_page ::
  "environment \<Rightarrow> config \<Rightarrow> json \<Rightarrow> loop_state \<Rightarrow> exn option \<times> loop_state" where
  "process_page env cfg page st =
     (let st1 = st\<lparr>page_no := page_no st + 1\<rparr>
      in case page of
          JDict pd \<Rightarrow>
            (case py_iter (page_results pd) of
               Inl e \<Rightarrow> (Some e, st1)
             | Inr results \<Rightarrow>
                 (case process_records env cfg results st1 of
                    (Some e, st2) \<Rightarrow> (Some e, st2)
                  | (None, st2) \<Rightarrow>
                      (None, st2\<lparr>printed := printed st2 @
                         [PageProgress (page_no st2) (length results) (docs_ingested st2)
                            (truthy (dict_get pd ''next''))]\<rparr>)))
        | _ \<Rightarrow> (Some (no_get page), st1))"

definition run ::
  "config \<Rightarrow> environment \<Rightarrow> doc list \<Rightarrow> file_state \<Rightarrow> (exn option \<times> effects) option" where
  "run cfg env docs0 fs0 =
     (let eff0 = \<lparr>requests = [], mongo_connected = False, mongo_docs = docs0,
                  watermark_fs = fs0, stdout = [], stderr = []\<rparr>
      in case cfg_api_key cfg of
          None \<Rightarrow> Some (Some (SystemExit ''Missing OTX_API_KEY in environment or .env file''), eff0)
        | Some key \<Rightarrow>
            if key = []
            then Some (Some (SystemExit ''Missing OTX_API_KEY in environment or .env file''), eff0)
            else
              let modified_since = resume_point cfg fs0;
                  eff1 = eff0\<lparr>requests := [validate_request key]\<rparr>
              in case validate_api_key env key of
                  Inl e \<Rightarrow> Some (Some e, eff1)
                | Inr (JDict me) \<Rightarrow>
                    let eff2 = eff1\<lparr>stdout := [Authenticated (dict_get me ''username'')
                                   (dict_get me ''pulse_count'') (dict_get me ''indicator_count'')],
                                 mongo_connected := \<not> cfg_dry_run cfg\<rparr>;
                        st0 = \<lparr>collection_docs = docs0, latest_modified_seen = modified_since,
                               page_no = 0, docs_ingested = 0, now_calls = 0,
                               printed = stdout eff2\<rparr>
                    in (case fetch_pulses env key (cfg_page_limit cfg) modified_since
                               (process_page env cfg) (requests eff2, st0) of
                          None \<Rightarrow> None
                        | Some (Some e, rqs, st) \<Rightarrow>
                            Some (Some e, eff2\<lparr>requests := rqs, mongo_docs := collection_docs st,
                                               stdout := printed st\<rparr>)
                        | Some (None, rqs, st) \<Rightarrow>
                            let summary = (if \<not> cfg_dry_run cfg
                                           then Done (docs_ingested st) (cfg_mongo_db cfg)
                                                  (cfg_mongo_collection cfg)
                                           else DryRunDone (docs_ingested st));
                                eff3 = eff2\<lparr>requests := rqs, mongo_docs := collection_docs st,
                                            stdout := printed st @ [summary]\<rparr>
                            in if truthy (latest_modified_seen st)
                               then (case save_watermark env (cfg_watermark_file cfg)
                                            (latest_modified_seen st) fs0 of
                                       (fs, warnings) \<Rightarrow>
                                         Some (None, eff3\<lparr>watermark_fs := fs,
                                           stderr := warnings,
                                           stdout := stdout eff3 @
                                             [WatermarkSaved (latest_modified_seen st)
                                                (cfg_watermark_file cfg)]\<rparr>))
                               else Some (None, eff3))
                | Inr v \<Rightarrow> Some (Some (no_get v), eff1))"

text \<open>The \<^verbatim>\<open>__main__\<close> block: the exit status beside the effects. \<^verbatim>\<open>SystemExit\<close>
  with a message is not an \<^verbatim>\<open>Exception\<close>; the interpreter prints the message and
  exits with status 1.\<close>

definition main ::
  "config \<Rightarrow> environment \<Rightarrow> doc list \<Rightarrow> file_state \<Rightarrow> (nat \<times> effects) option" where
  "main cfg env docs0 fs0 =
     (case run cfg env docs0 fs0 of
        None \<Rightarrow> None
      | Some (None, eff) \<Rightarrow> Some (0, eff)
      | Some (Some (SystemExit m), eff) \<Rightarrow> Some (1, eff\<lparr>stderr := stderr eff @ [m]\<rparr>)
      | Some (Some e, eff) \<Rightarrow> Some (1, eff\<lparr>stderr := stderr eff @ [''[fatal] '' @ exn_str e]\<rparr>))"

subsection \<open>Notions used to state the properties\<close>

text \<open>The \<^verbatim>\<open>next\<close> field of a page.\<close>

definition page_next :: "json \<Rightarrow> json" where
  "page_next page = (case page of JDict d \<Rightarrow> dict_get d ''next'' | _ \<Rightarrow> JNull)"

text \<open>The requests that walking a chain of pages issues, in order.\<close>

fun chain_requests ::
  "(string \<times> string) list \<Rightarrow> json \<Rightarrow> doc option \<Rightarrow> json list \<Rightarrow> request list" where
  "chain_requests headers url params [] = []"
| "chain_requests headers url params (page # rest) =
     \<lparr>req_url = url, req_headers = headers,
      req_params = (if has_qmark url = Inr False then params else None)\<rparr>
     # chain_requests headers (page_next page) None rest"

text \<open>A loop body run over a list of pages, up to its first exception, with the number
  of pages it was given.\<close>

fun consume ::
  "(json \<Rightarrow> 's \<Rightarrow> exn option \<times> 's) \<Rightarrow> json list \<Rightarrow> 's \<Rightarrow> exn option \<times> nat \<times> 's" where
  "consume body [] s = (None, 0, s)"
| "consume body (page # rest) s =
     (case body page s of
        (Some e, s') \<Rightarrow> (Some e, 1, s')
      | (None, s') \<Rightarrow> (case consume body rest s' of (r, n, s'') \<Rightarrow> (r, Suc n, s'')))"

text \<open>A page whose \<^verbatim>\<open>results\<close> is a list of mappings, and the records it holds.\<close>

definition is_dict :: "json \<Rightarrow> bool" where
  "is_dict v = (case v of JDict _ \<Rightarrow> True | _ \<Rightarrow> False)"

definition record_page :: "json \<Rightarrow> bool" where
  "record_page page =
     (case page of
        JDict pd \<Rightarrow> (case page_results pd of JList rs \<Rightarrow> list_all is_dict rs | _ \<Rightarrow> False)
      | _ \<Rightarrow> False)"

definition the_dict :: "json \<Rightarrow> doc" where
  "the_dict v = (case v of JDict d \<Rightarrow> d | _ \<Rightarrow> [])"

definition records_of :: "json \<Rightarrow> doc list" where
  "records_of page =
     (case page of
        JDict pd \<Rightarrow> (case page_results pd of JList rs \<Rightarrow> map the_dict rs | _ \<Rightarrow> [])
      | _ \<Rightarrow> [])"

text \<open>The collection after the records of a page, and after a list of pages, have been
  upserted: \<open>pno\<close> is the page number and \<open>k\<close> the number of earlier calls of
  \<^verbatim>\<open>iso_now()\<close>.\<close>

definition stored_doc :: "environment \<Rightarrow> nat \<Rightarrow> nat \<Rightarrow> doc \<Rightarrow> doc" where
  "stored_doc env k pno raw = add_envelope env k pno (the_dict (make_mongo_safe (JDict raw)))"

fun store_records :: "environment \<Rightarrow> nat \<Rightarrow> nat \<Rightarrow> doc list \<Rightarrow> doc list \<Rightarrow> doc list" where
  "store_records env pno k coll [] = coll"
| "store_records env pno k coll (raw # rs) =
     store_records env pno (Suc k) (upsert_pulse env coll (stored_doc env k pno raw)) rs"

fun store_pages :: "environment \<Rightarrow> nat \<Rightarrow> nat \<Rightarrow> doc list \<Rightarrow> json list \<Rightarrow> doc list" where
  "store_pages env pno k coll [] = coll"
| "store_pages env pno k coll (page # rest) =
     store_pages env (Suc pno) (k + length (records_of page))
       (store_records env (Suc pno) k coll (records_of page)) rest"

text \<open>A document that carries the run identifier and the source tag of the run.\<close>

definition enveloped :: "environment \<Rightarrow> doc \<Rightarrow> bool" where
  "enveloped env d \<longleftrightarrow>
     dict_get d ''run_id'' = JStr (env_uuid4 env) \<and>
     dict_get d ''_source'' = JStr ''otx_pulses_subscribed''"

text \<open>The progress lines printed for a list of pages, from the page number and the
  running total reached before.\<close>

fun page_lines :: "nat \<Rightarrow> nat \<Rightarrow> json list \<Rightarrow> out_line list" where
  "page_lines pno tot [] = []"
| "page_lines pno tot (page # rest) =
     PageProgress (Suc pno) (length (records_of page)) (tot + length (records_of page))
       (truthy (page_next page))
     # page_lines (Suc pno) (tot + length (records_of page)) rest"

text \<open>
  A timestamp field is absent (or \<^verbatim>\<open>null\<close>) or a string. \<open>ts_of v\<close> is the timestamp
  a value carries, if any: an empty string counts as none, as it does for Python's
  truth test. Timestamps are ordered as the source compares them, as strings, and
  \<open>None\<close> lies below every timestamp.
\<close>

definition is_timestamp :: "json \<Rightarrow> bool" where
  "is_timestamp v = (case v of JNull \<Rightarrow> True | JStr _ \<Rightarrow> True | _ \<Rightarrow> False)"

definition ts_of :: "json \<Rightarrow> string option" where
  "ts_of v = (case v of JStr (c # cs) \<Rightarrow> Some (c # cs) | _ \<Rightarrow> None)"

definition timestamped :: "doc \<Rightarrow> bool" where
  "timestamped p \<longleftrightarrow> is_timestamp (dict_get p ''modified'') \<and> is_timestamp (dict_get p ''created'')"

text \<open>The \<^verbatim>\<open>modified\<close> value of a record, falling back to \<^verbatim>\<open>created\<close>.\<close>

definition record_ts :: "doc \<Rightarrow> string option" where
  "record_ts p = ts_of (py_or (dict_get p ''modified'') (dict_get p ''created''))"

text \<open>
  The instant that a timestamp of the form \<^verbatim>\<open>YYYY-MM-DDTHH:MM:SS+HH:MM\<close> denotes, in
  seconds since 1970-01-01T00:00:00+00:00: the civil date and time of day, less the
  UTC offset. This is the ordering of timestamps as points in time; the run itself
  never computes it.
\<close>

definition digit_of :: "char \<Rightarrow> nat option" where
  "digit_of c = (if CHR ''0'' \<le> c \<and> c \<le> CHR ''9'' then Some (of_char c - 48) else None)"

definition number_of :: "string \<Rightarrow> int option" where
  "number_of s =
     foldl (\<lambda>acc c. case acc of None \<Rightarrow> None
                     | Some a \<Rightarrow> (case digit_of c of None \<Rightarrow> None
                                  | Some d \<Rightarrow> Some (10 * a + int d)))
       (Some 0) s"

definition days_from_civil :: "int \<Rightarrow> int \<Rightarrow> int \<Rightarrow> int" where
  "days_from_civil y m d =
     (let y' = (if m \<le> 2 then y - 1 else y);
          era = y' div 400;
          yoe = y' - era * 400;
          doy = (153 * (if m > 2 then m - 3 else m + 9) + 2) div 5 + d - 1;
          doe = yoe * 365 + yoe div 4 - yoe div 100 + doy
      in era * 146097 + doe - 719468)"

definition instant_of :: "string \<Rightarrow> int option" where
  "instant_of s =
     (if length s = 25 \<and> s ! 4 = CHR ''-'' \<and> s ! 7 = CHR ''-'' \<and> s ! 10 = CHR ''T'' \<and>
         s ! 13 = CHR '':'' \<and> s ! 16 = CHR '':'' \<and> s ! 19 \<in> {CHR ''+'', CHR ''-''} \<and>
         s ! 22 = CHR '':''
      then
        (case number_of (take 4 s) of None \<Rightarrow> None | Some y \<Rightarrow>
        (case number_of (take 2 (drop 5 s)) of None \<Rightarrow> None | Some m \<Rightarrow>
        (case number_of (take 2 (drop 8 s)) of None \<Rightarrow> None | Some d \<Rightarrow>
        (case number_of (take 2 (drop 11 s)) of None \<Rightarrow> None | Some hh \<Rightarrow>
        (case number_of (take 2 (drop 14 s)) of None \<Rightarrow> None | Some mi \<Rightarrow>
        (case number_of (take 2 (drop 17 s)) of None \<Rightarrow> None | Some ss \<Rightarrow>
        (case number_of (take 2 (drop 20 s)) of None \<Rightarrow> None | Some oh \<Rightarrow>
        (case number_of (take 2 (drop 23 s)) of None \<Rightarrow> None | Some om \<Rightarrow>
           Some (((days_from_civil y m d * 24 + hh) * 60 + mi) * 60 + ss
                 - (if s ! 19 = CHR ''-'' then - 1 else 1) * (oh * 60 + om) * 60)))))))))
      else None)"

subsection \<open>Concrete runs\<close>

definition example_identity :: json where
  "example_identity =
     JDict [(''username'', JStr ''ann''), (''pulse_count'', JInt 3), (''indicator_count'', JInt 7)]"

definition page2_url :: string where
  "page2_url = ''https://otx.alienvault.com/api/v1/pulses/subscribed?limit=50&page=2''"

definition ok_response :: "json \<Rightarrow> response" where
  "ok_response v = \<lparr>status_code = 200, body_text = [], body_json = Inr v\<rparr>"

text \<open>A feed of two pages, the first pointing to the second.\<close>

definition two_page_session :: "json \<Rightarrow> json \<Rightarrow> request \<Rightarrow> string + response" where
  "two_page_session page1 page2 rq =
     (if req_url rq = JStr (urljoin OTX_BASE OTX_USER_ME) then Inr (ok_response example_identity)
      else if req_url rq = JStr (urljoin OTX_BASE OTX_PULSES_SUBSCRIBED) then Inr (ok_response page1)
      else if req_url rq = JStr page2_url then Inr (ok_response page2)
      else Inr \<lparr>status_code = 404, body_text = ''Not Found'', body_json = Inl ''Expecting value''\<rparr>)"

text \<open>An identity endpoint that rejects the key.\<close>

definition forbidden_session :: "request \<Rightarrow> string + response" where
  "forbidden_session rq =
     Inr \<lparr>status_code = 403, body_text = ''Forbidden'', body_json = Inl ''Expecting value''\<rparr>"

fun json_sum :: "json \<Rightarrow> int" where
  "json_sum JNull = 0"
| "json_sum (JBool b) = (if b then 1 else 0)"
| "json_sum (JInt i) = i"
| "json_sum (JStr s) = sum_list (map (\<lambda>c. int (of_char c)) s)"
| "json_sum (JList xs) = sum_list (map json_sum xs)"
| "json_sum (JDict kvs) =
     sum_list (map (\<lambda>(k, v). sum_list (map (\<lambda>c. int (of_char c)) k) + json_sum v) kvs)"

definition example_env :: "(request \<Rightarrow> string + response) \<Rightarrow> string \<Rightarrow> environment" where
  "example_env session run_id =
     \<lparr>env_session = session, env_uuid4 = run_id,
      env_now = (\<lambda>k. ''2025-05-01T00:00:0'' @ str_nat k @ ''+00:00''),
      env_hash_dumps = (\<lambda>d. json_sum (JDict d)), env_write_error = None\<rparr>"

definition example_cfg :: "string option \<Rightarrow> bool \<Rightarrow> config" where
  "example_cfg since_arg dry =
     \<lparr>cfg_api_key = Some ''k3y'', cfg_mongo_db = ''threatintel'',
      cfg_mongo_collection = ''otx_pulses_raw'', cfg_page_limit = 50, cfg_default_since = [],
      cfg_watermark_file = ''.otx_watermark.json'', cfg_since = since_arg,
      cfg_no_watermark = False, cfg_dry_run = dry\<rparr>"

definition pulse_a :: json where
  "pulse_a = JDict [(''id'', JStr ''a1''), (''revision'', JInt 1),
                    (''modified'', JStr ''2025-01-15T00:00:00+00:00''),
                    (''$meta'', JDict [(''tlp.level'', JStr ''white'')]),
                    (''run_id'', JStr ''from the feed'')]"

definition pulse_b :: json where
  "pulse_b = JDict [(''id'', JStr ''b2''), (''created'', JStr ''2025-02-01T00:00:00+00:00'')]"

definition pulse_c :: json where
  "pulse_c = JDict [(''name'', JStr ''anonymous'')]"

definition example_page1 :: json where
  "example_page1 = JDict [(''results'', JList [pulse_a, pulse_b]), (''next'', JStr page2_url)]"

definition example_page2 :: json where
  "example_page2 = JDict [(''results'', JList [pulse_c]), (''next'', JNull)]"

text \<open>A feed of one page whose only record is stamped with a UTC offset of five hours.\<close>

definition pulse_offset :: json where
  "pulse_offset = JDict [(''id'', JStr ''z9''),
                         (''modified'', JStr ''2025-01-01T05:00:00+05:00'')]"

definition offset_page :: json where
  "offset_page = JDict [(''results'', JList [pulse_offset]), (''next'', JNull)]"

section \<open>Properties\<close>

subsection \<open>Key rewriting\<close>

lemma safe_key_storage_safe: "storage_safe (safe_key k)"
proof -
  let ?m = "map (\<lambda>c. if c = CHR ''.'' then CHR ''_'' else c) k"
  have "CHR ''.'' \<notin> set ?m" by auto
  then have a: "CHR ''.'' \<notin> set (safe_key k)"
    unfolding safe_key_def using set_dropWhileD by fastforce
  have b: "take 1 (safe_key k) \<noteq> ''$''"
  proof (cases "safe_key k")
    case Nil then show ?thesis by simp
  next
    case (Cons c cs)
    then have "c \<noteq> CHR ''$''"
      unfolding safe_key_def using hd_dropWhile[of "\<lambda>c. c = CHR ''$''" ?m] by force
    with Cons show ?thesis by simp
  qed
  from a b show ?thesis by (simp add: storage_safe_def)
qed

lemma safe_key_fixed: "storage_safe k \<Longrightarrow> safe_key k = k"
proof -
  assume s: "storage_safe k"
  then have "map (\<lambda>c. if c = CHR ''.'' then CHR ''_'' else c) k = k"
    by (auto simp: storage_safe_def intro!: map_idI)
  moreover have "dropWhile (\<lambda>c. c = CHR ''$'') k = k"
    using s by (cases k) (simp_all add: storage_safe_def)
  ultimately show ?thesis by (simp add: safe_key_def)
qed

lemma safe_key_idem: "safe_key (safe_key k) = safe_key k"
  by (rule safe_key_fixed) (rule safe_key_storage_safe)

lemma foldl_update_distinct:
  "distinct (map fst acc) \<Longrightarrow>
   distinct (map fst (foldl (\<lambda>d (k, v). AList.update k v d) acc kvs))"
  by (induction kvs arbitrary: acc) (auto simp: distinct_update)

lemma foldl_update_keys:
  "fst ` set (foldl (\<lambda>d (k, v). AList.update k v d) acc kvs) = fst ` set acc \<union> fst ` set kvs"
proof (induction kvs arbitrary: acc)
  case Nil show ?case by simp
next
  case (Cons p kvs)
  obtain k v where p: "p = (k, v)" by (cases p)
  have "fst ` set (AList.update k v acc) = insert k (fst ` set acc)"
    using dom_update[of k v acc] by (simp add: dom_map_of_conv_image_fst)
  with Cons[of "AList.update k v acc"] p show ?case by auto
qed

lemma foldl_update_entries:
  "set (foldl (\<lambda>d (k, v). AList.update k v d) acc kvs) \<subseteq> set acc \<union> set kvs"
proof (induction kvs arbitrary: acc)
  case Nil show ?case by simp
next
  case (Cons p kvs)
  obtain k v where p: "p = (k, v)" by (cases p)
  have "set (AList.update k v acc) \<subseteq> insert (k, v) (set acc)"
    by (induction acc) auto
  with Cons[of "AList.update k v acc"] p show ?case by auto
qed

lemma update_fresh: "k \<notin> fst ` set d \<Longrightarrow> AList.update k v d = d @ [(k, v)]"
  by (induction d) auto

lemma foldl_update_fresh:
  "distinct (map fst (acc @ kvs)) \<Longrightarrow>
   foldl (\<lambda>d (k, v). AList.update k v d) acc kvs = acc @ kvs"
proof (induction kvs arbitrary: acc)
  case Nil show ?case by simp
next
  case (Cons p kvs)
  obtain k v where p: "p = (k, v)" by (cases p)
  from Cons.prems p have fresh: "k \<notin> fst ` set acc" by auto
  have "distinct (map fst ((acc @ [(k, v)]) @ kvs))" using Cons.prems p by auto
  from Cons.IH[OF this] fresh p show ?case by (simp add: update_fresh)
qed

lemma dict_of_distinct: "distinct (map fst (dict_of kvs))"
  unfolding dict_of_def by (rule foldl_update_distinct) simp

lemma dict_of_entries: "set (dict_of kvs) \<subseteq> set kvs"
  unfolding dict_of_def using foldl_update_entries[of "[]" kvs] by simp

lemma dict_of_keys: "fst ` set (dict_of kvs) = fst ` set kvs"
  unfolding dict_of_def using foldl_update_keys[of "[]" kvs] by simp

lemma dict_of_fixed: "distinct (map fst kvs) \<Longrightarrow> dict_of kvs = kvs"
  unfolding dict_of_def using foldl_update_fresh[of "[]" kvs] by simp

text \<open>
  C5. For every input value (nested mappings, sequences and scalars), applying the
  key-rewriting transform \<open>make_mongo_safe\<close> twice gives the same result as applying
  it once.
\<close>

theorem make_mongo_safe_idempotent:
  "make_mongo_safe (make_mongo_safe obj) = make_mongo_safe obj"
proof (induction obj)
  case (JList xs)
  then show ?case by (simp add: map_idI)
next
  case (JDict kvs)
  let ?g = "\<lambda>(k, v). (safe_key k, make_mongo_safe v)"
  let ?D = "dict_of (map ?g kvs)"
  have "map ?g ?D = ?D"
  proof (rule map_idI)
    fix e assume "e \<in> set ?D"
    then have "e \<in> set (map ?g kvs)" using dict_of_entries by blast
    then obtain k v where kv: "(k, v) \<in> set kvs" and e: "e = (safe_key k, make_mongo_safe v)"
      by auto
    from JDict.IH[of "(k, v)" v] kv
    have "make_mongo_safe (make_mongo_safe v) = make_mongo_safe v" by simp
    with e show "?g e = e" by (simp add: safe_key_idem)
  qed
  then have "dict_of (map ?g ?D) = ?D"
    by (simp add: dict_of_fixed dict_of_distinct)
  then show ?case by simp
qed simp_all

text \<open>
  C6. For every input, every mapping key at every nesting depth of the output of
  \<open>make_mongo_safe\<close> contains no separator character \<^verbatim>\<open>.\<close> and does not begin
  with the sentinel character \<^verbatim>\<open>$\<close>.
\<close>

theorem make_mongo_safe_keys_safe:
  "\<forall>k \<in> set (all_keys (make_mongo_safe obj)). CHR ''.'' \<notin> set k \<and> take 1 k \<noteq> ''$''"
proof (induction obj)
  case (JList xs)
  then show ?case by auto
next
  case (JDict kvs)
  let ?g = "\<lambda>(k, v). (safe_key k, make_mongo_safe v)"
  show ?case
  proof
    fix k assume "k \<in> set (all_keys (make_mongo_safe (JDict kvs)))"
    then obtain e where e: "e \<in> set (dict_of (map ?g kvs))"
      and k: "k \<in> set (fst e # all_keys (snd e))" by (auto split: prod.splits)
    from e have "e \<in> set (map ?g kvs)" using dict_of_entries by blast
    then obtain k0 v0 where kv: "(k0, v0) \<in> set kvs"
      and e': "e = (safe_key k0, make_mongo_safe v0)" by auto
    from k e' consider "k = safe_key k0" | "k \<in> set (all_keys (make_mongo_safe v0))" by auto
    then show "CHR ''.'' \<notin> set k \<and> take 1 k \<noteq> ''$''"
    proof cases
      case 1
      then show ?thesis using safe_key_storage_safe[of k0] by (simp add: storage_safe_def)
    next
      case 2
      with JDict.IH[of "(k0, v0)" v0] kv show ?thesis by simp
    qed
  qed
qed simp_all

theorem make_mongo_safe_keys_safe_witness:
  "all_keys (make_mongo_safe
      (JDict [(''$a.b'', JList [JDict [(''x.y'', JInt 1)]]), (''$$'', JNull)])) =
     [''a_b'', ''x_y'', ''''] \<and>
   list_all (\<lambda>k. CHR ''.'' \<notin> set k \<and> take 1 k \<noteq> ''$'')
     (all_keys (make_mongo_safe
        (JDict [(''$a.b'', JList [JDict [(''x.y'', JInt 1)]]), (''$$'', JNull)])))"
proof
  show "all_keys (make_mongo_safe
      (JDict [(''$a.b'', JList [JDict [(''x.y'', JInt 1)]]), (''$$'', JNull)])) =
     [''a_b'', ''x_y'', '''']"
    by (simp add: dict_of_def safe_key_def)
  show "list_all (\<lambda>k. CHR ''.'' \<notin> set k \<and> take 1 k \<noteq> ''$'')
     (all_keys (make_mongo_safe
        (JDict [(''$a.b'', JList [JDict [(''x.y'', JInt 1)]]), (''$$'', JNull)])))"
    unfolding list_all_iff
    by (rule make_mongo_safe_keys_safe)
qed

text \<open>
  C10. \<open>make_mongo_safe\<close> is not injective on mapping keys: the distinct keys
  \<^verbatim>\<open>a.b\<close> and \<^verbatim>\<open>a_b\<close> are rewritten to the same key, the transformed mapping has
  fewer entries than its input, and only the value stored last is retained.
\<close>

theorem make_mongo_safe_key_collision:
  "distinct (map fst [(''a.b'', JInt 1), (''a_b'', JInt 2)]) \<and>
   safe_key ''a.b'' = safe_key ''a_b'' \<and>
   make_mongo_safe (JDict [(''a.b'', JInt 1), (''a_b'', JInt 2)]) = JDict [(''a_b'', JInt 2)] \<and>
   (\<exists>d. make_mongo_safe (JDict [(''a.b'', JInt 1), (''a_b'', JInt 2)]) = JDict d \<and>
        length d < length [(''a.b'', JInt 1), (''a_b'', JInt 2)])"
  by (simp add: dict_of_def safe_key_def)

subsection \<open>The resume point\<close>

lemma load_watermark_reads:
  "load_watermark path fs =
     (case fs of
        Parsed (JDict d) \<Rightarrow> if path = [] then JNull else dict_get d ''modified_since''
      | _ \<Rightarrow> JNull)"
  by (simp add: load_watermark_def split: file_state.splits json.splits)

text \<open>
  C7. The resume point used for extraction is chosen in this order: the command line
  override first; then, unless the skip flag is set, the value persisted in the
  watermark file, which is the field \<^verbatim>\<open>modified_since\<close> of the mapping the file
  holds; then the configured default; else none. A value counts as given when it is not
  empty, as Python's \<^verbatim>\<open>or\<close> tests it. A watermark file that is absent, that cannot
  be parsed or that does not hold a mapping, and an empty file path, yield no watermark:
  the next source in the order is used, and \<open>load_watermark\<close> has no error result.
\<close>

theorem resume_point_resolution:
  "resume_point cfg fs =
     (case cfg_since cfg of
        Some (c # cs) \<Rightarrow> JStr (c # cs)
      | _ \<Rightarrow>
          let persisted =
                (case fs of
                   Parsed (JDict d) \<Rightarrow>
                     if cfg_watermark_file cfg = [] then JNull else dict_get d ''modified_since''
                 | _ \<Rightarrow> JNull)
          in if \<not> cfg_no_watermark cfg \<and> truthy persisted then persisted
             else if cfg_default_since cfg \<noteq> [] then JStr (cfg_default_since cfg)
             else JNull) \<and>
   load_watermark path fs =
     (case fs of
        Parsed (JDict d) \<Rightarrow> if path = [] then JNull else dict_get d ''modified_since''
      | _ \<Rightarrow> JNull)"
proof
  have "resume_point cfg fs =
      (case cfg_since cfg of
        Some (c # cs) \<Rightarrow> JStr (c # cs)
      | _ \<Rightarrow>
          let persisted = load_watermark (cfg_watermark_file cfg) fs
          in if \<not> cfg_no_watermark cfg \<and> truthy persisted then persisted
             else if cfg_default_since cfg \<noteq> [] then JStr (cfg_default_since cfg)
             else JNull)"
    by (auto simp: resume_point_def py_or_def Let_def split: option.splits list.splits)
  then show "resume_point cfg fs =
     (case cfg_since cfg of
        Some (c # cs) \<Rightarrow> JStr (c # cs)
      | _ \<Rightarrow>
          let persisted =
                (case fs of
                   Parsed (JDict d) \<Rightarrow>
                     if cfg_watermark_file cfg = [] then JNull else dict_get d ''modified_since''
                 | _ \<Rightarrow> JNull)
          in if \<not> cfg_no_watermark cfg \<and> truthy persisted then persisted
             else if cfg_default_since cfg \<noteq> [] then JStr (cfg_default_since cfg)
             else JNull)"
    by (simp only: load_watermark_reads)
  show "load_watermark path fs =
     (case fs of
        Parsed (JDict d) \<Rightarrow> if path = [] then JNull else dict_get d ''modified_since''
      | _ \<Rightarrow> JNull)"
    by (rule load_watermark_reads)
qed

theorem resume_point_resolution_witness:
  "resume_point (example_cfg None False)
     (Parsed (JDict [(''modified_since'', JStr ''2025-02-01T00:00:00+00:00'')])) =
     JStr ''2025-02-01T00:00:00+00:00'' \<and>
   resume_point (example_cfg (Some ''2025-03-01T00:00:00+00:00'') False)
     (Parsed (JDict [(''modified_since'', JStr ''2025-02-01T00:00:00+00:00'')])) =
     JStr ''2025-03-01T00:00:00+00:00'' \<and>
   resume_point
     ((example_cfg None False)
        \<lparr>cfg_no_watermark := True, cfg_default_since := ''2024-12-01T00:00:00+00:00''\<rparr>)
     (Parsed (JDict [(''modified_since'', JStr ''2025-02-01T00:00:00+00:00'')])) =
     JStr ''2024-12-01T00:00:00+00:00'' \<and>
   resume_point
     ((example_cfg None False)\<lparr>cfg_default_since := ''2024-12-01T00:00:00+00:00''\<rparr>)
     Unparseable = JStr ''2024-12-01T00:00:00+00:00'' \<and>
   resume_point (example_cfg None False) (Parsed (JList [JStr ''2025-02-01T00:00:00+00:00''])) =
     JNull \<and>
   resume_point (example_cfg None False) Missing = JNull \<and>
   load_watermark ''.otx_watermark.json''
     (Parsed (JDict [(''modified_since'', JStr ''2025-02-01T00:00:00+00:00'')])) =
     JStr ''2025-02-01T00:00:00+00:00''"
  using
    resume_point_resolution
      [of "example_cfg None False"
          "Parsed (JDict [(''modified_since'', JStr ''2025-02-01T00:00:00+00:00'')])"
          "''.otx_watermark.json''"]
    resume_point_resolution
      [of "example_cfg (Some ''2025-03-01T00:00:00+00:00'') False"
          "Parsed (JDict [(''modified_since'', JStr ''2025-02-01T00:00:00+00:00'')])"]
    resume_point_resolution
      [of "(example_cfg None False)
             \<lparr>cfg_no_watermark := True, cfg_default_since := ''2024-12-01T00:00:00+00:00''\<rparr>"
          "Parsed (JDict [(''modified_since'', JStr ''2025-02-01T00:00:00+00:00'')])"]
    resume_point_resolution
      [of "(example_cfg None False)\<lparr>cfg_default_since := ''2024-12-01T00:00:00+00:00''\<rparr>"
          Unparseable]
    resume_point_resolution
      [of "example_cfg None False" "Parsed (JList [JStr ''2025-02-01T00:00:00+00:00''])"]
    resume_point_resolution [of "example_cfg None False" Missing]
  by (simp add: example_cfg_def dict_get_def)

subsection \<open>The identity check\<close>

lemma str_403: "str_int 403 = ''403''"
  by code_simp

text \<open>
  C3. When the identity check is answered with a status code other than 200, the
  authenticator raises a fatal error carrying the status code and the first 200
  characters of the response body; the process exits with status 1, the diagnostic it
  prints contains the status code, and the identity check is the only request issued:
  no extraction request is made, and the store and the watermark file are untouched.
\<close>

theorem auth_failure_fatal:
  assumes "cfg_api_key cfg = Some key" and "key \<noteq> []"
    and "env_session env (validate_request key) = Inr r"
    and "status_code r \<noteq> 200"
  shows "validate_api_key env key =
           Inl (RuntimeError (''OTX API key validation failed: '' @ str_int (status_code r)
                              @ '' '' @ take 200 (body_text r))) \<and>
         (\<exists>eff. main cfg env docs fs = Some (1, eff) \<and>
            requests eff = [validate_request key] \<and>
            stdout eff = [] \<and>
            stderr eff = [''[fatal] OTX API key validation failed: '' @ str_int (status_code r)
                          @ '' '' @ take 200 (body_text r)] \<and>
            sublist (str_int (status_code r)) (last (stderr eff)) \<and>
            \<not> mongo_connected eff \<and> mongo_docs eff = docs \<and> watermark_fs eff = fs)"
proof -
  let ?msg = "''OTX API key validation failed: '' @ str_int (status_code r)
                              @ '' '' @ take 200 (body_text r)"
  have v: "validate_api_key env key = Inl (RuntimeError ?msg)"
    using assms by (simp add: validate_api_key_def)
  have r: "run cfg env docs fs =
      Some (Some (RuntimeError ?msg),
            \<lparr>requests = [validate_request key], mongo_connected = False, mongo_docs = docs,
             watermark_fs = fs, stdout = [], stderr = []\<rparr>)"
    using assms v by (simp add: run_def Let_def)
  have s: "sublist (str_int (status_code r)) (''[fatal] '' @ ?msg)"
    unfolding sublist_def
    by (rule exI[of _ "''[fatal] OTX API key validation failed: ''"],
        rule exI[of _ "'' '' @ take 200 (body_text r)"]) simp
  show ?thesis using v r s by (simp add: main_def)
qed

theorem auth_failure_fatal_witness:
  "main (example_cfg None False) (example_env forbidden_session ''run-1'') [] Missing =
     Some (1, \<lparr>requests = [validate_request ''k3y''], mongo_connected = False, mongo_docs = [],
               watermark_fs = Missing, stdout = [],
               stderr = [''[fatal] OTX API key validation failed: 403 Forbidden'']\<rparr>)"
  using auth_failure_fatal
    [of "example_cfg None False" "''k3y''" "example_env forbidden_session ''run-1''"
        "\<lparr>status_code = 403, body_text = ''Forbidden'', body_json = Inl ''Expecting value''\<rparr>"
        "[]" Missing]
  by (auto simp: example_cfg_def example_env_def forbidden_session_def str_403)

subsection \<open>Pagination\<close>

lemma fetch_loop_chain:
  "page_chain env headers url params pages \<Longrightarrow>
   fetch_loop env headers body url params (rqs, s) =
     Some (case consume body pages s of
             (r, n, s') \<Rightarrow> (r, rqs @ take n (chain_requests headers url params pages), s'))"
proof (induction pages arbitrary: url params rqs s)
  case Nil
  then show ?case by (subst fetch_loop.simps) simp
next
  case (Cons page rest)
  from Cons.prems obtain u where u: "url = JStr u" "u \<noteq> []"
    by (cases url) auto
  let ?rq = "\<lparr>req_url = url, req_headers = headers,
               req_params = (if CHR ''?'' \<notin> set u then params else None)\<rparr>"
  from Cons.prems u obtain r where r: "env_session env ?rq = Inr r"
    "status_code r = 200" "body_json r = Inr page"
    by (cases "env_session env ?rq") auto
  from Cons.prems u r obtain d where d: "page = JDict d"
    "page_chain env headers (dict_get d ''next'') None rest"
    by (cases page) auto
  show ?case
  proof (cases "body page s")
    case (Pair eo s')
    show ?thesis
    proof (cases eo)
      case (Some e)
      with Pair u r d show ?thesis
        by (subst fetch_loop.simps) (simp add: has_qmark_def)
    next
      case None
      have "fetch_loop env headers body url params (rqs, s) =
            fetch_loop env headers body (dict_get d ''next'') None (rqs @ [?rq], s')"
        using Pair None u r d by (subst fetch_loop.simps) (simp add: has_qmark_def)
      also have "\<dots> = Some (case consume body rest s' of
             (r, n, s'') \<Rightarrow> (r, (rqs @ [?rq]) @ take n (chain_requests headers (dict_get d ''next'') None rest), s''))"
        by (rule Cons.IH[OF d(2)])
      finally show ?thesis using Pair None u d
        by (simp add: has_qmark_def page_next_def split: prod.splits)
    qed
  qed
qed

lemma consume_collect: "consume collect pages acc = (None, length pages, acc @ pages)"
  by (induction pages arbitrary: acc) (simp_all add: collect_def)

lemma chain_requests_length: "length (chain_requests headers url params pages) = length pages"
  by (induction pages arbitrary: url params) simp_all

lemma chain_requests_urls:
  "map req_url (chain_requests headers url params pages) =
     (if pages = [] then [] else url # map page_next (butlast pages))"
  by (induction pages arbitrary: url params) simp_all

lemma chain_requests_headers:
  "list_all (\<lambda>rq. req_headers rq = headers) (chain_requests headers url params pages)"
  by (induction pages arbitrary: url params) simp_all

lemma chain_requests_params_None:
  "map req_params (chain_requests headers url None pages) = replicate (length pages) None"
  by (induction pages arbitrary: url) simp_all

lemma chain_requests_params:
  "map req_params (chain_requests headers url params (page # rest)) =
     (if has_qmark url = Inr False then params else None) # replicate (length rest) None"
  by (simp add: chain_requests_params_None)

text \<open>
  C4. For every finite chain of \<open>n\<close> pages, each but the last carrying a \<^verbatim>\<open>next\<close>
  URL at which the following page is served, and the last without \<^verbatim>\<open>next\<close>, the
  extractor yields exactly these \<open>n\<close> pages in order and then terminates. It issues
  \<open>n\<close> requests: the first at the listing endpoint with the query parameters, each
  further one at exactly the URL of the previous page's \<^verbatim>\<open>next\<close>, with no
  parameters added.
\<close>

theorem fetch_pulses_follows_chain:
  assumes "page_chain env (otx_headers key) (JStr (urljoin OTX_BASE OTX_PULSES_SUBSCRIBED))
             (Some (fetch_params limit since)) pages"
  shows "\<exists>rqs. fetch_pulses env key limit since collect ([], []) = Some (None, rqs, pages) \<and>
           length rqs = length pages \<and>
           map req_url rqs =
             JStr (urljoin OTX_BASE OTX_PULSES_SUBSCRIBED) # map page_next (butlast pages) \<and>
           list_all (\<lambda>rq. req_headers rq = otx_headers key) rqs \<and>
           map req_params rqs =
             Some (fetch_params limit since) # replicate (length pages - 1) None"
proof -
  let ?url = "JStr (urljoin OTX_BASE OTX_PULSES_SUBSCRIBED)"
  let ?rqs = "chain_requests (otx_headers key) ?url (Some (fetch_params limit since)) pages"
  from assms obtain page rest where pages: "pages = page # rest"
    by (cases pages) (simp_all add: urljoin_def OTX_BASE_def)
  have q: "has_qmark ?url = Inr False"
    by (simp add: has_qmark_def urljoin_def OTX_BASE_def OTX_PULSES_SUBSCRIBED_def)
  have "fetch_pulses env key limit since collect ([], []) = Some (None, ?rqs, pages)"
    unfolding fetch_pulses_def
    by (simp add: fetch_loop_chain[OF assms] consume_collect chain_requests_length)
  moreover have "length ?rqs = length pages" by (rule chain_requests_length)
  moreover have "map req_url ?rqs = ?url # map page_next (butlast pages)"
    using pages by (simp add: chain_requests_urls)
  moreover have "list_all (\<lambda>rq. req_headers rq = otx_headers key) ?rqs"
    by (rule chain_requests_headers)
  moreover have "map req_params ?rqs =
      Some (fetch_params limit since) # replicate (length pages - 1) None"
    unfolding pages chain_requests_params q by simp
  ultimately show ?thesis by - (rule exI[of _ ?rqs], (intro conjI; assumption))
qed

lemma example_chain:
  "page_chain (example_env (two_page_session example_page1 example_page2) rid) headers
     (JStr (urljoin OTX_BASE OTX_PULSES_SUBSCRIBED)) params [example_page1, example_page2]"
  by (simp add: example_env_def two_page_session_def ok_response_def example_page1_def
        example_page2_def page2_url_def urljoin_def OTX_BASE_def OTX_PULSES_SUBSCRIBED_def
        OTX_USER_ME_def dict_get_def)

theorem fetch_pulses_follows_chain_witness:
  "\<exists>rqs. fetch_pulses (example_env (two_page_session example_page1 example_page2) ''run-1'')
            ''k3y'' 50 JNull collect ([], []) = Some (None, rqs, [example_page1, example_page2]) \<and>
         map req_url rqs = [JStr (urljoin OTX_BASE OTX_PULSES_SUBSCRIBED), JStr page2_url] \<and>
         map req_params rqs = [Some [(''limit'', JInt 50)], None]"
  using fetch_pulses_follows_chain
    [OF example_chain, of "''run-1''" "''k3y''" 50 JNull]
  by (auto simp: page_next_def example_page1_def dict_get_def fetch_params_def)

subsection \<open>The loop over pages and records\<close>

lemma process_record_dict:
  "process_record env cfg (JDict raw) st =
     (None, st\<lparr>now_calls := now_calls st + 1,
               latest_modified_seen := track_modified (latest_modified_seen st) raw,
               collection_docs := (if cfg_dry_run cfg then collection_docs st
                  else upsert_pulse env (collection_docs st)
                         (stored_doc env (now_calls st) (page_no st) raw)),
               docs_ingested := docs_ingested st + 1\<rparr>)"
  by (simp add: process_record_def stored_doc_def the_dict_def Let_def)

lemma process_records_ok:
  "list_all is_dict rs \<Longrightarrow>
   process_records env cfg rs st =
     (None, st\<lparr>now_calls := now_calls st + length rs,
               latest_modified_seen :=
                 foldl track_modified (latest_modified_seen st) (map the_dict rs),
               collection_docs := (if cfg_dry_run cfg then collection_docs st
                  else store_records env (page_no st) (now_calls st) (collection_docs st)
                         (map the_dict rs)),
               docs_ingested := docs_ingested st + length rs\<rparr>)"
proof (induction rs arbitrary: st)
  case Nil
  show ?case by simp
next
  case (Cons p rs)
  from Cons.prems obtain raw where p: "p = JDict raw"
    by (cases p) (simp_all add: is_dict_def)
  from Cons.prems have rs: "list_all is_dict rs" by simp
  show ?case
    by (simp add: p process_record_dict Cons.IH[OF rs] the_dict_def)
qed

lemma process_page_ok:
  "record_page page \<Longrightarrow>
   process_page env cfg page st =
     (None, st\<lparr>page_no := page_no st + 1,
               now_calls := now_calls st + length (records_of page),
               latest_modified_seen :=
                 foldl track_modified (latest_modified_seen st) (records_of page),
               collection_docs := (if cfg_dry_run cfg then collection_docs st
                  else store_records env (page_no st + 1) (now_calls st) (collection_docs st)
                         (records_of page)),
               docs_ingested := docs_ingested st + length (records_of page),
               printed := printed st @
                 [PageProgress (page_no st + 1) (length (records_of page))
                    (docs_ingested st + length (records_of page)) (truthy (page_next page))]\<rparr>)"
proof -
  assume wf: "record_page page"
  then obtain pd where pd: "page = JDict pd" by (cases page) (simp_all add: record_page_def)
  with wf obtain rs where rs: "page_results pd = JList rs" "list_all is_dict rs"
    by (cases "page_results pd") (simp_all add: record_page_def)
  show ?thesis
    by (simp add: pd rs process_page_def Let_def py_iter_def process_records_ok
          records_of_def page_next_def)
qed

lemma consume_pages_ok:
  "list_all record_page pages \<Longrightarrow>
   consume (process_page env cfg) pages st =
     (None, length pages,
      st\<lparr>page_no := page_no st + length pages,
         now_calls := now_calls st + length (concat (map records_of pages)),
         latest_modified_seen :=
           foldl track_modified (latest_modified_seen st) (concat (map records_of pages)),
         collection_docs := (if cfg_dry_run cfg then collection_docs st
            else store_pages env (page_no st) (now_calls st) (collection_docs st) pages),
         docs_ingested := docs_ingested st + length (concat (map records_of pages)),
         printed := printed st @ page_lines (page_no st) (docs_ingested st) pages\<rparr>)"
proof (induction pages arbitrary: st)
  case Nil
  show ?case by simp
next
  case (Cons page rest)
  from Cons.prems have wf: "record_page page" and rest: "list_all record_page rest" by simp_all
  show ?case
    by (simp add: process_page_ok[OF wf] Cons.IH[OF rest] add.assoc)
qed

lemma run_completes:
  assumes key: "cfg_api_key cfg = Some key" "key \<noteq> []"
    and me: "validate_api_key env key = Inr (JDict me)"
    and chain: "page_chain env (otx_headers key) (JStr (urljoin OTX_BASE OTX_PULSES_SUBSCRIBED))
                  (Some (fetch_params (cfg_page_limit cfg) (resume_point cfg fs))) pages"
    and wf: "list_all record_page pages"
  shows "run cfg env docs fs =
    Some (None,
      let wm = foldl track_modified (resume_point cfg fs) (concat (map records_of pages));
          n = length (concat (map records_of pages))
      in \<lparr>requests = validate_request key #
             chain_requests (otx_headers key) (JStr (urljoin OTX_BASE OTX_PULSES_SUBSCRIBED))
               (Some (fetch_params (cfg_page_limit cfg) (resume_point cfg fs))) pages,
          mongo_connected = (\<not> cfg_dry_run cfg),
          mongo_docs = (if cfg_dry_run cfg then docs else store_pages env 0 0 docs pages),
          watermark_fs = (if truthy wm then fst (save_watermark env (cfg_watermark_file cfg) wm fs)
                          else fs),
          stdout = Authenticated (dict_get me ''username'') (dict_get me ''pulse_count'')
                     (dict_get me ''indicator_count'')
                   # page_lines 0 0 pages
                   @ [if cfg_dry_run cfg then DryRunDone n
                      else Done n (cfg_mongo_db cfg) (cfg_mongo_collection cfg)]
                   @ (if truthy wm then [WatermarkSaved wm (cfg_watermark_file cfg)] else []),
          stderr = (if truthy wm then snd (save_watermark env (cfg_watermark_file cfg) wm fs)
                    else [])\<rparr>)"
  using key me
  by (simp add: run_def Let_def fetch_pulses_def fetch_loop_chain[OF chain]
        consume_pages_ok[OF wf] chain_requests_length split: prod.splits)

subsection \<open>The watermark\<close>

lemma max_None_right: "max (x :: string option) None = x"
  by (cases x) (simp_all add: max_def)

lemma max_None_left: "max None (x :: string option) = x"
  by (cases x) (simp_all add: max_def)

lemma ts_of_simps:
  "ts_of JNull = None" "ts_of (JStr []) = None" "s \<noteq> [] \<Longrightarrow> ts_of (JStr s) = Some s"
  by (cases s; simp add: ts_of_def)+

lemma is_timestamp_cases:
  assumes "is_timestamp v"
  obtains "v = JNull" | "v = JStr []" | s where "v = JStr s" and "s \<noteq> []"
proof (cases v)
  case (JStr s)
  then show ?thesis using that by (cases s) auto
qed (use assms that in \<open>auto simp: is_timestamp_def\<close>)

lemma track_modified_none:
  "\<not> truthy (py_or (dict_get p ''modified'') (dict_get p ''created'')) \<Longrightarrow>
   track_modified latest p = latest"
  by (simp add: track_modified_def Let_def)

lemma track_modified_some:
  assumes "py_or (dict_get p ''modified'') (dict_get p ''created'') = JStr s" and "s \<noteq> []"
  shows "track_modified latest p =
           (if latest = JNull then JStr s
            else case py_gt (JStr s) latest of Some True \<Rightarrow> JStr s | _ \<Rightarrow> latest)"
  using assms by (simp add: track_modified_def Let_def)

lemma later_of_two:
  "(case t < s of True \<Rightarrow> JStr s | False \<Rightarrow> JStr t) = JStr (max t (s :: string))"
  by (auto simp: max_def split: bool.splits)

lemma max_Some: "max (Some (a :: string)) (Some b) = Some (max a b)"
  by (simp add: max_def)

lemma max_nonempty: "(s :: string) \<noteq> [] \<Longrightarrow> t \<noteq> [] \<Longrightarrow> max t s \<noteq> []"
  by (simp add: max_def)

lemma track_modified_ts:
  assumes l: "is_timestamp latest" and p: "timestamped p"
  shows "is_timestamp (track_modified latest p) \<and>
         ts_of (track_modified latest p) = max (ts_of latest) (record_ts p)"
proof -
  let ?m = "py_or (dict_get p ''modified'') (dict_get p ''created'')"
  from p have "is_timestamp ?m" by (simp add: timestamped_def py_or_def)
  then show ?thesis
  proof (cases ?m rule: is_timestamp_cases)
    case 1
    then show ?thesis using l
      by (simp add: track_modified_none record_ts_def ts_of_simps max_None_right)
  next
    case 2
    then show ?thesis using l
      by (simp add: track_modified_none record_ts_def ts_of_simps max_None_right)
  next
    case (3 s)
    note m = track_modified_some[OF 3] and r = 3
    from l show ?thesis
    proof (cases latest rule: is_timestamp_cases)
      case 1
      then show ?thesis using r
        by (simp add: m record_ts_def ts_of_simps max_None_left is_timestamp_def)
    next
      case 2
      have "max [] s = s" by (simp add: max_def)
      then show ?thesis using r 2
        by (simp add: m later_of_two record_ts_def ts_of_simps max_None_left is_timestamp_def)
    next
      case (3 t)
      then show ?thesis using r
        by (simp add: m later_of_two record_ts_def ts_of_simps max_Some max_nonempty
              is_timestamp_def)
    qed
  qed
qed

lemma Max_insert_max:
  fixes a b :: "'a :: linorder"
  assumes "finite S"
  shows "Max (insert (max a b) S) = Max (insert a (insert b S))"
proof (cases "S = {}")
  case True
  then show ?thesis by (simp add: max.commute)
next
  case False
  with assms show ?thesis by (simp add: max.assoc)
qed

lemma foldl_track_modified_ts:
  "is_timestamp latest \<Longrightarrow> list_all timestamped ps \<Longrightarrow>
   is_timestamp (foldl track_modified latest ps) \<and>
   ts_of (foldl track_modified latest ps) = Max (insert (ts_of latest) (set (map record_ts ps)))"
proof (induction ps arbitrary: latest)
  case Nil
  then show ?case by simp
next
  case (Cons p ps)
  from Cons.prems have p: "timestamped p" and ps: "list_all timestamped ps" by simp_all
  note step = track_modified_ts[OF Cons.prems(1) p]
  from Cons.IH[OF conjunct1[OF step] ps] step
  show ?case by (simp add: Max_insert_max)
qed

lemma foldl_track_modified_ge_seed:
  assumes "is_timestamp latest" and "list_all timestamped ps"
  shows "ts_of latest \<le> ts_of (foldl track_modified latest ps)"
  using foldl_track_modified_ts[OF assms] by simp

lemma timestamp_of_ts:
  "is_timestamp v \<Longrightarrow> ts_of v = Some t \<Longrightarrow> v = JStr t \<and> truthy v"
  by (erule is_timestamp_cases) (auto simp: ts_of_simps)

lemma timestamp_no_ts:
  "is_timestamp v \<Longrightarrow> ts_of v = None \<Longrightarrow> \<not> truthy v"
  by (erule is_timestamp_cases) (auto simp: ts_of_simps)

lemma example_validate:
  "validate_api_key (example_env (two_page_session p1 p2) rid) key =
     Inr (JDict [(''username'', JStr ''ann''), (''pulse_count'', JInt 3),
                 (''indicator_count'', JInt 7)])"
  by (simp add: validate_api_key_def validate_request_def example_env_def two_page_session_def
        ok_response_def example_identity_def)

lemma example_records:
  "concat (map records_of [example_page1, example_page2]) =
     [the_dict pulse_a, the_dict pulse_b, the_dict pulse_c]"
  by (simp add: records_of_def example_page1_def example_page2_def page_results_def)

lemma example_record_pages: "list_all record_page [example_page1, example_page2]"
  by (simp add: record_page_def example_page1_def example_page2_def page_results_def
        is_dict_def pulse_a_def pulse_b_def pulse_c_def)

lemma example_timestamped:
  "list_all timestamped [the_dict pulse_a, the_dict pulse_b, the_dict pulse_c]"
  by (simp add: timestamped_def is_timestamp_def the_dict_def pulse_a_def pulse_b_def
        pulse_c_def dict_get_def)

lemma example_record_ts:
  "map record_ts [the_dict pulse_a, the_dict pulse_b, the_dict pulse_c] =
     [Some ''2025-01-15T00:00:00+00:00'', Some ''2025-02-01T00:00:00+00:00'', None]"
  by (simp add: record_ts_def ts_of_def py_or_def the_dict_def pulse_a_def pulse_b_def
        pulse_c_def dict_get_def)

lemma example_seed:
  "resume_point (example_cfg (Some ''2025-01-01T00:00:00+00:00'') dry) fs =
     JStr ''2025-01-01T00:00:00+00:00''"
  by (simp add: resume_point_def example_cfg_def py_or_def Let_def)

lemma example_max:
  "Max {Some ''2025-01-01T00:00:00+00:00'', Some ''2025-01-15T00:00:00+00:00'',
        Some ''2025-02-01T00:00:00+00:00'', None} = Some ''2025-02-01T00:00:00+00:00''"
  by (simp add: max_def less_eq_char_def less_char_def)

lemma offset_chain:
  "page_chain (example_env (two_page_session offset_page p2) rid) headers
     (JStr (urljoin OTX_BASE OTX_PULSES_SUBSCRIBED)) params [offset_page]"
  by (simp add: example_env_def two_page_session_def ok_response_def
        offset_page_def urljoin_def OTX_BASE_def OTX_PULSES_SUBSCRIBED_def
        OTX_USER_ME_def dict_get_def)

lemma offset_page_wf: "list_all record_page [offset_page]"
  by (simp add: record_page_def offset_page_def page_results_def is_dict_def pulse_offset_def)

lemma offset_page_records:
  "records_of offset_page =
     [[(''id'', JStr ''z9''), (''modified'', JStr ''2025-01-01T05:00:00+05:00'')]]"
  by (simp add: records_of_def offset_page_def page_results_def the_dict_def pulse_offset_def)

lemma offset_track:
  "track_modified (JStr ''2025-01-01T01:00:00+00:00'')
     [(''id'', JStr ''z9''), (''modified'', JStr ''2025-01-01T05:00:00+05:00'')] =
   JStr ''2025-01-01T05:00:00+05:00''"
  by code_simp

lemma offset_instants:
  "instant_of ''2025-01-01T01:00:00+00:00'' = Some 1735693200"
  "instant_of ''2025-01-01T05:00:00+05:00'' = Some 1735689600"
  by code_simp+

text \<open>
  C2, as stated, takes the maximum by timestamp ordering. The run compares the values
  as strings. Started from the resume point \<^verbatim>\<open>2025-01-01T01:00:00+00:00\<close>, a run
  over one record modified at \<^verbatim>\<open>2025-01-01T05:00:00+05:00\<close>, which is midnight UTC
  and one hour before the resume point, persists the record's value: the persisted
  watermark is not the later of the two instants, and it lies before its seed.
\<close>

theorem watermark_earlier_instant_counterexample:
  "\<exists>eff. run (example_cfg (Some ''2025-01-01T01:00:00+00:00'') False)
            (example_env (two_page_session offset_page offset_page) ''run-1'') [] Missing =
          Some (None, eff) \<and>
         resume_point (example_cfg (Some ''2025-01-01T01:00:00+00:00'') False) Missing =
           JStr ''2025-01-01T01:00:00+00:00'' \<and>
         records_of offset_page =
           [[(''id'', JStr ''z9''), (''modified'', JStr ''2025-01-01T05:00:00+05:00'')]] \<and>
         watermark_fs eff =
           Parsed (JDict [(''modified_since'', JStr ''2025-01-01T05:00:00+05:00'')]) \<and>
         instant_of ''2025-01-01T01:00:00+00:00'' = Some 1735693200 \<and>
         instant_of ''2025-01-01T05:00:00+05:00'' = Some 1735689600 \<and>
         (1735689600 :: int) < 1735693200"
proof -
  let ?cfg = "example_cfg (Some ''2025-01-01T01:00:00+00:00'') False"
  let ?env = "example_env (two_page_session offset_page offset_page) ''run-1''"
  have key: "cfg_api_key ?cfg = Some ''k3y''" "''k3y'' \<noteq> []"
    by (simp_all add: example_cfg_def)
  have seed: "resume_point ?cfg Missing = JStr ''2025-01-01T01:00:00+00:00''"
    by (simp add: resume_point_def example_cfg_def py_or_def Let_def)
  have wfile: "cfg_watermark_file ?cfg = ''.otx_watermark.json''" "env_write_error ?env = None"
    by (simp_all add: example_cfg_def example_env_def)
  from run_completes[where env = ?env and docs = "[]" and fs = Missing,
      OF key example_validate offset_chain offset_page_wf]
  obtain eff where r: "run ?cfg ?env [] Missing = Some (None, eff)"
    and w: "watermark_fs eff =
              Parsed (JDict [(''modified_since'', JStr ''2025-01-01T05:00:00+05:00'')])"
    by (simp add: Let_def seed offset_page_records offset_track wfile save_watermark_def)
  from r seed offset_page_records w offset_instants show ?thesis
    by - (rule exI[of _ eff], simp)
qed

text \<open>
  C2, amended. For a run over any finite chain of pages whose records carry timestamps
  (under \<^verbatim>\<open>modified\<close> and \<^verbatim>\<open>created\<close>, a string or nothing), started from a resume
  point that is a timestamp or none, the watermark persisted at the end of the run is
  the maximum, in the lexicographic order of the timestamp strings by character code,
  of the resume-point seed and every record's \<^verbatim>\<open>modified\<close> value, falling back to
  \<^verbatim>\<open>created\<close> when \<^verbatim>\<open>modified\<close> is absent (or empty); nothing is written when
  there is no timestamp at all. In that order, after every number of records the
  tracked watermark is at least the seed, and at least what it was one record earlier.
\<close>

theorem watermark_is_maximum:
  assumes key: "cfg_api_key cfg = Some key" "key \<noteq> []"
    and me: "validate_api_key env key = Inr (JDict me)"
    and chain: "page_chain env (otx_headers key) (JStr (urljoin OTX_BASE OTX_PULSES_SUBSCRIBED))
                  (Some (fetch_params (cfg_page_limit cfg) (resume_point cfg fs))) pages"
    and wf: "list_all record_page pages"
    and ts: "list_all timestamped (concat (map records_of pages))"
    and seed: "is_timestamp (resume_point cfg fs)"
    and wfile: "cfg_watermark_file cfg \<noteq> []" "env_write_error env = None"
  shows "\<exists>eff. run cfg env docs fs = Some (None, eff) \<and>
           watermark_fs eff =
             (case Max (insert (ts_of (resume_point cfg fs))
                          (set (map record_ts (concat (map records_of pages))))) of
                None \<Rightarrow> fs
              | Some t \<Rightarrow> Parsed (JDict [(''modified_since'', JStr t)])) \<and>
           (\<forall>n. ts_of (resume_point cfg fs) \<le>
                  ts_of (foldl track_modified (resume_point cfg fs)
                           (take n (concat (map records_of pages)))) \<and>
                ts_of (foldl track_modified (resume_point cfg fs)
                         (take n (concat (map records_of pages)))) \<le>
                  ts_of (foldl track_modified (resume_point cfg fs)
                           (take (Suc n) (concat (map records_of pages)))))"
proof -
  let ?seed = "resume_point cfg fs"
  let ?rs = "concat (map records_of pages)"
  let ?wm = "foldl track_modified ?seed ?rs"
  let ?M = "Max (insert (ts_of ?seed) (set (map record_ts ?rs)))"
  note fin = foldl_track_modified_ts[OF seed ts]
  have fs: "(if truthy ?wm then fst (save_watermark env (cfg_watermark_file cfg) ?wm fs) else fs)
            = (case ?M of None \<Rightarrow> fs | Some t \<Rightarrow> Parsed (JDict [(''modified_since'', JStr t)]))"
  proof (cases ?M)
    case None
    with fin have "\<not> truthy ?wm" by (simp add: timestamp_no_ts)
    with None show ?thesis by simp
  next
    case (Some t)
    with fin have w: "?wm = JStr t" and "truthy ?wm" by (simp_all add: timestamp_of_ts)
    then have "t \<noteq> []" by simp
    with Some wfile w show ?thesis by (simp add: save_watermark_def)
  qed
  have mono: "ts_of ?seed \<le> ts_of (foldl track_modified ?seed (take n ?rs)) \<and>
              ts_of (foldl track_modified ?seed (take n ?rs)) \<le>
              ts_of (foldl track_modified ?seed (take (Suc n) ?rs))" for n
  proof
    have tn: "list_all timestamped (take n ?rs)"
      using ts list_all_append[of timestamped "take n ?rs" "drop n ?rs"] by simp
    show "ts_of ?seed \<le> ts_of (foldl track_modified ?seed (take n ?rs))"
      by (rule foldl_track_modified_ge_seed[OF seed tn])
    show "ts_of (foldl track_modified ?seed (take n ?rs)) \<le>
          ts_of (foldl track_modified ?seed (take (Suc n) ?rs))"
    proof (cases "n < length ?rs")
      case True
      then have "take (Suc n) ?rs = take n ?rs @ [?rs ! n]" by (rule take_Suc_conv_app_nth)
      moreover have "timestamped (?rs ! n)" using ts True by (simp add: list_all_length)
      ultimately show ?thesis
        using track_modified_ts[OF conjunct1[OF foldl_track_modified_ts[OF seed tn]], of "?rs ! n"]
        by simp
    next
      case False
      then show ?thesis by simp
    qed
  qed
  from run_completes[OF key me chain wf, of docs]
  have "run cfg env docs fs = Some (None,
      \<lparr>requests = validate_request key #
             chain_requests (otx_headers key) (JStr (urljoin OTX_BASE OTX_PULSES_SUBSCRIBED))
               (Some (fetch_params (cfg_page_limit cfg) ?seed)) pages,
          mongo_connected = (\<not> cfg_dry_run cfg),
          mongo_docs = (if cfg_dry_run cfg then docs else store_pages env 0 0 docs pages),
          watermark_fs = (if truthy ?wm then fst (save_watermark env (cfg_watermark_file cfg) ?wm fs)
                          else fs),
          stdout = Authenticated (dict_get me ''username'') (dict_get me ''pulse_count'')
                     (dict_get me ''indicator_count'')
                   # page_lines 0 0 pages
                   @ [if cfg_dry_run cfg then DryRunDone (length ?rs)
                      else Done (length ?rs) (cfg_mongo_db cfg) (cfg_mongo_collection cfg)]
                   @ (if truthy ?wm then [WatermarkSaved ?wm (cfg_watermark_file cfg)] else []),
          stderr = (if truthy ?wm then snd (save_watermark env (cfg_watermark_file cfg) ?wm fs)
                    else [])\<rparr>)"
    by (simp add: Let_def)
  then show ?thesis using fs mono by simp
qed

theorem watermark_is_maximum_witness:
  "\<exists>eff. run (example_cfg (Some ''2025-01-01T00:00:00+00:00'') False)
            (example_env (two_page_session example_page1 example_page2) ''run-1'') [] Missing =
          Some (None, eff) \<and>
         watermark_fs eff =
           Parsed (JDict [(''modified_since'', JStr ''2025-02-01T00:00:00+00:00'')])"
proof -
  let ?cfg = "example_cfg (Some ''2025-01-01T00:00:00+00:00'') False"
  let ?env = "example_env (two_page_session example_page1 example_page2) ''run-1''"
  have key: "cfg_api_key ?cfg = Some ''k3y''" "''k3y'' \<noteq> []"
    by (simp_all add: example_cfg_def)
  have ts: "list_all timestamped (concat (map records_of [example_page1, example_page2]))"
    unfolding example_records by (rule example_timestamped)
  have seed: "is_timestamp (resume_point ?cfg Missing)"
    by (simp add: example_seed is_timestamp_def)
  have wfile: "cfg_watermark_file ?cfg \<noteq> []" "env_write_error ?env = None"
    by (simp_all add: example_cfg_def example_env_def)
  from watermark_is_maximum
    [OF key example_validate example_chain example_record_pages ts seed wfile, of "[]"]
  show ?thesis
    unfolding example_records example_seed example_record_ts ts_of_simps
    using example_max by (auto simp: ts_of_def insert_commute)
qed

subsection \<open>Dry runs\<close>

lemma process_record_dry:
  "cfg_dry_run cfg \<Longrightarrow> process_record env cfg p st = (r, st') \<Longrightarrow>
   collection_docs st' = collection_docs st"
  by (auto simp: process_record_def Let_def split: json.splits)

lemma process_records_dry:
  "cfg_dry_run cfg \<Longrightarrow> process_records env cfg ps st = (r, st') \<Longrightarrow>
   collection_docs st' = collection_docs st"
proof (induction ps arbitrary: st)
  case Nil
  then show ?case by simp
next
  case (Cons p ps)
  obtain r1 st1 where s1: "process_record env cfg p st = (r1, st1)"
    by (cases "process_record env cfg p st")
  from process_record_dry[OF Cons.prems(1) s1]
  have c1: "collection_docs st1 = collection_docs st" .
  show ?case
  proof (cases r1)
    case None
    with Cons.prems s1 have "process_records env cfg ps st1 = (r, st')" by simp
    from Cons.IH[OF Cons.prems(1) this] c1 show ?thesis by simp
  next
    case (Some e)
    with Cons.prems s1 c1 show ?thesis by auto
  qed
qed

lemma process_page_dry:
  "cfg_dry_run cfg \<Longrightarrow> process_page env cfg page st = (r, st') \<Longrightarrow>
   collection_docs st' = collection_docs st"
  by (auto simp: process_page_def Let_def
      split: json.splits sum.splits prod.splits option.splits
      dest: process_records_dry)

lemma fetch_loop_invariant_aux:
  assumes "fetch_loop env headers body url params st = Some res"
  shows "(\<forall>page s r s'. body page s = (r, s') \<longrightarrow> I s \<longrightarrow> I s') \<longrightarrow>
         I (snd st) \<longrightarrow> I (snd (snd res))"
proof (rule fetch_loop.raw_induct
    [where P = "\<lambda>env headers body url params st res.
        (\<forall>page s r s'. body page s = (r, s') \<longrightarrow> I s \<longrightarrow> I s') \<longrightarrow>
         I (snd st) \<longrightarrow> I (snd (snd res))", OF _ assms], goal_cases)
  case (1 f env headers body url params st res)
  show ?case
  proof (intro impI)
    assume body: "\<forall>page s r s'. body page s = (r, s') \<longrightarrow> I s \<longrightarrow> I s'" and st: "I (snd st)"
    from body have step: "\<And>page s r s'. body page s = (r, s') \<Longrightarrow> I s \<Longrightarrow> I s'"
      by blast
    note IH = 1(1)[rule_format, OF _ step]
    from 1(2) st show "I (snd (snd res))"
      by (auto simp: Let_def split: if_splits sum.splits prod.splits option.splits json.splits
            dest!: IH dest: step)
  qed
qed

lemma fetch_loop_invariant:
  assumes "fetch_loop env headers body url params (rqs, s) = Some (r, rqs', s')"
    and "\<And>page s r s'. body page s = (r, s') \<Longrightarrow> I s \<Longrightarrow> I s'"
    and "I s"
  shows "I s'"
  using fetch_loop_invariant_aux[OF assms(1), of I] assms(2,3) by auto

lemma fetch_pulses_dry:
  assumes "cfg_dry_run cfg"
    and "fetch_pulses env key limit since (process_page env cfg) (rqs, st) = Some (r, rqs', st')"
  shows "collection_docs st' = collection_docs st"
  using fetch_loop_invariant
    [OF assms(2)[unfolded fetch_pulses_def], of "\<lambda>s. collection_docs s = collection_docs st"]
    process_page_dry[OF assms(1)]
  by simp

lemma run_dry:
  assumes "cfg_dry_run cfg" and "run cfg env docs fs = Some (r, eff)"
  shows "\<not> mongo_connected eff \<and> mongo_docs eff = docs"
  using assms(2) assms(1)
  by (auto simp: run_def Let_def
      split: option.splits if_splits sum.splits json.splits prod.splits
      dest!: fetch_pulses_dry[OF assms(1)])

lemma main_dry:
  assumes "cfg_dry_run cfg" and "main cfg env docs fs = Some (status, eff)"
  shows "\<not> mongo_connected eff \<and> mongo_docs eff = docs"
  using assms(2) run_dry[OF assms(1), of env docs fs]
  by (auto simp: main_def split: option.splits prod.splits exn.splits)

lemma example_chain_one:
  "page_chain (example_env (two_page_session example_page2 p2) rid) headers
     (JStr (urljoin OTX_BASE OTX_PULSES_SUBSCRIBED)) params [example_page2]"
  by (simp add: example_env_def two_page_session_def ok_response_def
        example_page2_def urljoin_def OTX_BASE_def OTX_PULSES_SUBSCRIBED_def
        OTX_USER_ME_def dict_get_def)

lemma example_page2_records: "records_of example_page2 = [the_dict pulse_c]"
  by (simp add: records_of_def example_page2_def page_results_def)

lemma example_page2_wf: "list_all record_page [example_page2]"
  by (simp add: record_page_def example_page2_def page_results_def is_dict_def pulse_c_def)

lemma example_track:
  "foldl track_modified JNull (concat (map records_of [example_page1, example_page2])) =
     JStr ''2025-02-01T00:00:00+00:00''"
  unfolding example_records
  by (simp add: track_modified_def the_dict_def pulse_a_def pulse_b_def pulse_c_def
        dict_get_def py_or_def less_char_def)

lemma example_lines:
  "page_lines 0 0 [example_page1, example_page2] =
     [PageProgress 1 2 2 True, PageProgress 2 1 3 False]"
  by (simp add: records_of_def page_results_def page_next_def example_page1_def
        example_page2_def dict_get_def page2_url_def)

lemma example_count: "length (concat (map records_of [example_page1, example_page2])) = 3"
  unfolding example_records by simp

text \<open>
  C8, as stated, says that a dry run persists the watermark whenever at least one
  record was seen. The run below fetches one record that has neither \<^verbatim>\<open>modified\<close>
  nor \<^verbatim>\<open>created\<close>, with no resume point: it reports one record and leaves the
  watermark file missing.
\<close>

theorem dry_run_without_timestamp_counterexample:
  "\<exists>eff. main (example_cfg None True)
            (example_env (two_page_session example_page2 example_page2) ''run-1'') [] Missing =
          Some (0, eff) \<and>
         records_of example_page2 = [[(''name'', JStr ''anonymous'')]] \<and>
         stdout eff = [Authenticated (JStr ''ann'') (JInt 3) (JInt 7),
                       PageProgress 1 1 1 False, DryRunDone 1] \<and>
         watermark_fs eff = Missing"
proof -
  let ?cfg = "example_cfg None True"
  let ?env = "example_env (two_page_session example_page2 example_page2) ''run-1''"
  have key: "cfg_api_key ?cfg = Some ''k3y''" "''k3y'' \<noteq> []"
    by (simp_all add: example_cfg_def)
  have seed: "resume_point ?cfg Missing = JNull"
    by (simp add: resume_point_def example_cfg_def load_watermark_def py_or_def)
  have wm: "track_modified JNull [(''name'', JStr ''anonymous'')] = JNull"
    by (simp add: track_modified_def dict_get_def py_or_def)
  have nxt: "page_next example_page2 = JNull"
    by (simp add: page_next_def example_page2_def dict_get_def)
  have dry: "cfg_dry_run ?cfg" by (simp add: example_cfg_def)
  have c: "the_dict pulse_c = [(''name'', JStr ''anonymous'')]"
    by (simp add: the_dict_def pulse_c_def)
  from run_completes[where env = ?env and docs = "[]" and fs = Missing,
      OF key example_validate example_chain_one example_page2_wf]
  show ?thesis
    by (simp add: main_def Let_def seed wm nxt dry dict_get_def example_page2_records c)
qed

text \<open>
  C8, amended. In a run with the dry-run flag set, however it ends, no storage
  connection is opened and the collection is left as it was. When the run completes
  over a chain of pages of records, the count of all fetched records is computed and
  reported, and the watermark file is written exactly when the tracked watermark is
  not empty at the end (a resume point was in force, or some record carried a
  non-empty \<^verbatim>\<open>modified\<close> or \<^verbatim>\<open>created\<close> value) and the file can be written; it
  then holds the tracked watermark.
\<close>

theorem dry_run_effects:
  assumes dry: "cfg_dry_run cfg"
    and key: "cfg_api_key cfg = Some key" "key \<noteq> []"
    and me: "validate_api_key env key = Inr (JDict me)"
    and chain: "page_chain env (otx_headers key) (JStr (urljoin OTX_BASE OTX_PULSES_SUBSCRIBED))
                  (Some (fetch_params (cfg_page_limit cfg) (resume_point cfg fs))) pages"
    and wf: "list_all record_page pages"
  shows "(\<forall>status eff. main cfg env docs fs = Some (status, eff) \<longrightarrow>
            \<not> mongo_connected eff \<and> mongo_docs eff = docs) \<and>
         (\<exists>eff. main cfg env docs fs = Some (0, eff) \<and>
            \<not> mongo_connected eff \<and> mongo_docs eff = docs \<and>
            (let wm = foldl track_modified (resume_point cfg fs) (concat (map records_of pages));
                 n = length (concat (map records_of pages))
             in stdout eff =
                  Authenticated (dict_get me ''username'') (dict_get me ''pulse_count'')
                    (dict_get me ''indicator_count'')
                  # page_lines 0 0 pages @ [DryRunDone n]
                  @ (if truthy wm then [WatermarkSaved wm (cfg_watermark_file cfg)] else []) \<and>
                watermark_fs eff =
                  (if truthy wm \<and> cfg_watermark_file cfg \<noteq> [] \<and> env_write_error env = None
                   then Parsed (JDict [(''modified_since'', wm)]) else fs)))"
proof
  show "\<forall>status eff. main cfg env docs fs = Some (status, eff) \<longrightarrow>
            \<not> mongo_connected eff \<and> mongo_docs eff = docs"
    using main_dry[OF dry] by blast
  show "\<exists>eff. main cfg env docs fs = Some (0, eff) \<and>
            \<not> mongo_connected eff \<and> mongo_docs eff = docs \<and>
            (let wm = foldl track_modified (resume_point cfg fs) (concat (map records_of pages));
                 n = length (concat (map records_of pages))
             in stdout eff =
                  Authenticated (dict_get me ''username'') (dict_get me ''pulse_count'')
                    (dict_get me ''indicator_count'')
                  # page_lines 0 0 pages @ [DryRunDone n]
                  @ (if truthy wm then [WatermarkSaved wm (cfg_watermark_file cfg)] else []) \<and>
                watermark_fs eff =
                  (if truthy wm \<and> cfg_watermark_file cfg \<noteq> [] \<and> env_write_error env = None
                   then Parsed (JDict [(''modified_since'', wm)]) else fs))"
    using dry
    by (auto simp: main_def run_completes[OF key me chain wf] Let_def save_watermark_def
        split: option.splits)
qed

theorem dry_run_effects_witness:
  "\<exists>eff. main (example_cfg None True)
            (example_env (two_page_session example_page1 example_page2) ''run-1'') [] Missing =
          Some (0, eff) \<and>
         \<not> mongo_connected eff \<and> mongo_docs eff = [] \<and>
         stdout eff = [Authenticated (JStr ''ann'') (JInt 3) (JInt 7),
                       PageProgress 1 2 2 True, PageProgress 2 1 3 False, DryRunDone 3,
                       WatermarkSaved (JStr ''2025-02-01T00:00:00+00:00'') ''.otx_watermark.json''] \<and>
         watermark_fs eff =
           Parsed (JDict [(''modified_since'', JStr ''2025-02-01T00:00:00+00:00'')])"
proof -
  let ?cfg = "example_cfg None True"
  let ?env = "example_env (two_page_session example_page1 example_page2) ''run-1''"
  have dry: "cfg_dry_run ?cfg" by (simp add: example_cfg_def)
  have key: "cfg_api_key ?cfg = Some ''k3y''" "''k3y'' \<noteq> []"
    by (simp_all add: example_cfg_def)
  have seed: "resume_point ?cfg Missing = JNull"
    by (simp add: resume_point_def example_cfg_def load_watermark_def py_or_def)
  have wfile: "cfg_watermark_file ?cfg = ''.otx_watermark.json''" "env_write_error ?env = None"
    by (simp_all add: example_cfg_def example_env_def)
  from dry_run_effects[where env = ?env and docs = "[]" and fs = Missing,
      OF dry key example_validate example_chain example_record_pages]
  show ?thesis
    unfolding Let_def seed example_track example_lines example_count wfile
    by (simp add: dict_get_def)
qed

subsection \<open>The ingestion envelope\<close>

lemma dict_get_update:
  "dict_get (AList.update k v d) k' = (if k' = k then v else dict_get d k')"
  by (simp add: dict_get_def update_conv')

lemma add_envelope_fields:
  "dict_get (add_envelope env k pno d) ''_source'' = JStr ''otx_pulses_subscribed''"
  "dict_get (add_envelope env k pno d) ''ingested_at'' = JStr (env_now env k)"
  "dict_get (add_envelope env k pno d) ''run_id'' = JStr (env_uuid4 env)"
  "dict_get (add_envelope env k pno d) ''page_no'' = JInt (int pno)"
  by (simp_all add: add_envelope_def dict_get_update)

lemma add_envelope_other:
  "k' \<notin> {''_source'', ''ingested_at'', ''run_id'', ''page_no''} \<Longrightarrow>
   dict_get (add_envelope env k pno d) k' = dict_get d k'"
  by (simp add: add_envelope_def dict_get_update)

lemma update_key_set: "fst ` set (AList.update k v d) = insert k (fst ` set d)"
  using dom_update[of k v d] by (simp add: dom_map_of_conv_image_fst)

lemma add_envelope_keys:
  "fst ` set (add_envelope env k pno d) =
     fst ` set d \<union> {''_source'', ''ingested_at'', ''run_id'', ''page_no''}"
  unfolding add_envelope_def update_key_set by blast

lemma add_envelope_distinct:
  "distinct (map fst d) \<Longrightarrow> distinct (map fst (add_envelope env k pno d))"
  by (simp add: add_envelope_def distinct_update)

lemma stored_doc_distinct: "distinct (map fst (stored_doc env k pno raw))"
  by (simp add: stored_doc_def the_dict_def add_envelope_distinct dict_of_distinct)

lemma map_of_foldl_update:
  "map_of (foldl (\<lambda>d (k, v). AList.update k v d) d new) = map_of d ++ map_of (rev new)"
proof (induction new arbitrary: d)
  case Nil
  show ?case by simp
next
  case (Cons p new)
  obtain k v where p: "p = (k, v)" by (cases p)
  show ?case
    by (simp add: p Cons.IH update_conv' map_add_def fun_eq_iff split: option.splits)
qed

lemma dict_get_apply_set:
  assumes "distinct (map fst new)"
  shows "dict_get (apply_set new d) k =
           (if k \<in> fst ` set new then dict_get new k else dict_get d k)"
proof -
  have "map_of (rev new) = map_of new"
    using assms by (simp add: map_of_inject_set rev_map[symmetric])
  then have "map_of (apply_set new d) k = (map_of d ++ map_of new) k"
    by (simp add: apply_set_def map_of_foldl_update)
  then have m: "map_of (apply_set new d) k =
      (case map_of new k of None \<Rightarrow> map_of d k | Some v \<Rightarrow> Some v)"
    by (simp add: map_add_def)
  show ?thesis
  proof (cases "map_of new k")
    case None
    then have "k \<notin> fst ` set new" by (simp add: map_of_eq_None_iff)
    with None m show ?thesis by (simp add: dict_get_def)
  next
    case (Some v)
    then have "k \<in> fst ` set new" using map_of_eq_None_iff[of new k] by auto
    with Some m show ?thesis by (simp add: dict_get_def)
  qed
qed

lemma written_doc_fields:
  fixes env k pno raw d0
  defines "doc \<equiv> apply_set (stored_doc env k pno raw) d0"
  shows "dict_get doc ''_source'' = JStr ''otx_pulses_subscribed''"
    and "dict_get doc ''ingested_at'' = JStr (env_now env k)"
    and "dict_get doc ''run_id'' = JStr (env_uuid4 env)"
    and "dict_get doc ''page_no'' = JInt (int pno)"
  unfolding doc_def
  by (simp_all add: dict_get_apply_set[OF stored_doc_distinct])
     (simp_all add: stored_doc_def add_envelope_keys add_envelope_fields)

lemma written_doc_enveloped: "enveloped env (apply_set (stored_doc env k pno raw) d0)"
  by (simp add: enveloped_def written_doc_fields)

lemma update_one_written:
  "\<exists>d0. apply_set new d0 \<in> set (update_one flt new coll) \<and>
         (if list_ex (matches flt) coll then d0 \<in> set coll \<and> matches flt d0 else d0 = flt)"
  by (induction coll) auto

lemma update_one_invariant:
  assumes "\<And>d0. P (apply_set new d0)" and "list_all P coll"
  shows "list_all P (update_one flt new coll)"
  using assms(2) by (induction coll) (simp_all add: assms(1))

lemma process_record_invariant:
  assumes w: "\<And>k pno raw d0. P (apply_set (stored_doc env k pno raw) d0)"
    and "process_record env cfg p st = (r, st')" and "list_all P (collection_docs st)"
  shows "list_all P (collection_docs st')"
proof (cases p)
  case (JDict raw)
  with assms(2,3) show ?thesis
    by (auto simp: process_record_dict upsert_pulse_def intro!: update_one_invariant w)
qed (use assms(2,3) in \<open>auto simp: process_record_def\<close>)

lemma process_records_invariant:
  assumes w: "\<And>k pno raw d0. P (apply_set (stored_doc env k pno raw) d0)"
  shows "process_records env cfg ps st = (r, st') \<Longrightarrow> list_all P (collection_docs st) \<Longrightarrow>
         list_all P (collection_docs st')"
proof (induction ps arbitrary: st)
  case Nil
  then show ?case by simp
next
  case (Cons p ps)
  obtain r1 st1 where s1: "process_record env cfg p st = (r1, st1)"
    by (cases "process_record env cfg p st")
  from process_record_invariant[of P, OF w s1 Cons.prems(2)]
  have i1: "list_all P (collection_docs st1)" .
  show ?case
  proof (cases r1)
    case None
    with Cons.prems s1 have "process_records env cfg ps st1 = (r, st')" by simp
    from Cons.IH[OF this i1] show ?thesis .
  next
    case (Some e)
    with Cons.prems s1 i1 show ?thesis by auto
  qed
qed

lemma process_page_invariant:
  assumes w: "\<And>k pno raw d0. P (apply_set (stored_doc env k pno raw) d0)"
    and pp: "process_page env cfg page st = (r, st')" and i: "list_all P (collection_docs st)"
  shows "list_all P (collection_docs st')"
proof -
  let ?st1 = "st\<lparr>page_no := page_no st + 1\<rparr>"
  have i1: "list_all P (collection_docs ?st1)" using i by simp
  show ?thesis
  proof (cases page)
    case (JDict pd)
    show ?thesis
    proof (cases "py_iter (page_results pd)")
      case (Inl e)
      with JDict pp i show ?thesis by (auto simp: process_page_def Let_def)
    next
      case (Inr ps)
      obtain r2 st2 where s2: "process_records env cfg ps ?st1 = (r2, st2)"
        by (cases "process_records env cfg ps ?st1")
      from process_records_invariant[of P, OF w s2 i1]
      have "list_all P (collection_docs st2)" .
      with JDict Inr s2 pp show ?thesis
        by (cases r2) (auto simp: process_page_def Let_def)
    qed
  qed (use pp i in \<open>auto simp: process_page_def Let_def\<close>)
qed

lemma fetch_pulses_invariant:
  assumes w: "\<And>k pno raw d0. P (apply_set (stored_doc env k pno raw) d0)"
    and "fetch_pulses env key limit since (process_page env cfg) (rqs, st) = Some (r, rqs', st')"
    and "list_all P (collection_docs st)"
  shows "list_all P (collection_docs st')"
  using fetch_loop_invariant
    [OF assms(2)[unfolded fetch_pulses_def], of "\<lambda>s. list_all P (collection_docs s)"]
    process_page_invariant[of P, OF w] assms(3)
  by blast

lemma run_invariant:
  assumes w: "\<And>k pno raw d0. P (apply_set (stored_doc env k pno raw) d0)"
    and "run cfg env docs fs = Some (r, eff)" and "list_all P docs"
  shows "list_all P (mongo_docs eff)"
  using assms(2,3)
  by (auto simp: run_def Let_def
      split: option.splits if_splits sum.splits json.splits prod.splits
      dest!: fetch_pulses_invariant[of P, OF w])

lemma main_invariant:
  assumes w: "\<And>k pno raw d0. P (apply_set (stored_doc env k pno raw) d0)"
    and "main cfg env docs fs = Some (status, eff)" and "list_all P docs"
  shows "list_all P (mongo_docs eff)"
  using assms(2) run_invariant[of P, OF w _ assms(3), of cfg fs]
  by (auto simp: main_def split: option.splits prod.splits exn.splits)

lemma example_store_run1:
  "store_pages (example_env (two_page_session example_page1 example_page2) ''run-1'') 0 0 []
     [example_page1, example_page2] =
   [[(''id'', JStr ''a1''), (''revision'', JInt 1),
     (''modified'', JStr ''2025-01-15T00:00:00+00:00''),
     (''meta'', JDict [(''tlp_level'', JStr ''white'')]),
     (''run_id'', JStr ''run-1''),
     (''_source'', JStr ''otx_pulses_subscribed''),
     (''ingested_at'', JStr ''2025-05-01T00:00:00+00:00''),
     (''page_no'', JInt 1)],
    [(''id'', JStr ''b2''), (''revision'', JNull),
     (''created'', JStr ''2025-02-01T00:00:00+00:00''),
     (''_source'', JStr ''otx_pulses_subscribed''),
     (''ingested_at'', JStr ''2025-05-01T00:00:01+00:00''),
     (''run_id'', JStr ''run-1''), (''page_no'', JInt 1)],
    [(''_hash'', JInt 8675), (''name'', JStr ''anonymous''),
     (''_source'', JStr ''otx_pulses_subscribed''),
     (''ingested_at'', JStr ''2025-05-01T00:00:02+00:00''),
     (''run_id'', JStr ''run-1''), (''page_no'', JInt 2)]]"
  by code_simp

text \<open>
  C9. For every raw record handed to the store, the document written for it is the
  rewritten record with the envelope set on top: its fields \<^verbatim>\<open>_source\<close>,
  \<^verbatim>\<open>ingested_at\<close>, \<^verbatim>\<open>run_id\<close> and \<^verbatim>\<open>page_no\<close> are the source tag, the clock
  reading, the run identifier and the page number of the run, whatever the raw record
  held under these names. The run identifier is one value for the whole invocation:
  however the process ends, every document of the collection is either an untouched
  document of the collection it started with, or carries that run identifier and the
  source tag.
\<close>

theorem envelope_on_stored_documents:
  assumes wet: "\<not> cfg_dry_run cfg"
  shows "(\<exists>st' d0.
            process_record env cfg (JDict raw) st = (None, st') \<and>
            (let doc = apply_set (stored_doc env (now_calls st) (page_no st) raw) d0
             in doc \<in> set (collection_docs st') \<and>
                dict_get doc ''_source'' = JStr ''otx_pulses_subscribed'' \<and>
                dict_get doc ''ingested_at'' = JStr (env_now env (now_calls st)) \<and>
                dict_get doc ''run_id'' = JStr (env_uuid4 env) \<and>
                dict_get doc ''page_no'' = JInt (int (page_no st)))) \<and>
         (\<forall>status eff. main cfg env docs fs = Some (status, eff) \<longrightarrow>
            list_all (\<lambda>d. d \<in> set docs \<or> enveloped env d) (mongo_docs eff))"
proof
  let ?new = "stored_doc env (now_calls st) (page_no st) raw"
  from update_one_written[of ?new "natural_key env ?new" "collection_docs st"]
  obtain d0 where "apply_set ?new d0 \<in> set (upsert_pulse env (collection_docs st) ?new)"
    unfolding upsert_pulse_def by blast
  with wet show "\<exists>st' d0.
            process_record env cfg (JDict raw) st = (None, st') \<and>
            (let doc = apply_set (stored_doc env (now_calls st) (page_no st) raw) d0
             in doc \<in> set (collection_docs st') \<and>
                dict_get doc ''_source'' = JStr ''otx_pulses_subscribed'' \<and>
                dict_get doc ''ingested_at'' = JStr (env_now env (now_calls st)) \<and>
                dict_get doc ''run_id'' = JStr (env_uuid4 env) \<and>
                dict_get doc ''page_no'' = JInt (int (page_no st)))"
    by (auto simp: process_record_dict written_doc_fields Let_def)
next
  have "list_all (\<lambda>d. d \<in> set docs \<or> enveloped env d) (mongo_docs eff)"
    if "main cfg env docs fs = Some (status, eff)" for status eff
    by (rule main_invariant[OF _ that]) (simp_all add: written_doc_enveloped list_all_iff)
  then show "\<forall>status eff. main cfg env docs fs = Some (status, eff) \<longrightarrow>
            list_all (\<lambda>d. d \<in> set docs \<or> enveloped env d) (mongo_docs eff)"
    by blast
qed

theorem envelope_on_stored_documents_witness:
  "\<exists>eff. main (example_cfg None False)
            (example_env (two_page_session example_page1 example_page2) ''run-1'') [] Missing =
          Some (0, eff) \<and>
         dict_get (the_dict pulse_a) ''run_id'' = JStr ''from the feed'' \<and>
         map (\<lambda>d. dict_get d ''run_id'') (mongo_docs eff) =
           [JStr ''run-1'', JStr ''run-1'', JStr ''run-1''] \<and>
         map (\<lambda>d. dict_get d ''page_no'') (mongo_docs eff) = [JInt 1, JInt 1, JInt 2] \<and>
         list_all (enveloped (example_env (two_page_session example_page1 example_page2) ''run-1''))
           (mongo_docs eff)"
proof -
  let ?cfg = "example_cfg None False"
  let ?env = "example_env (two_page_session example_page1 example_page2) ''run-1''"
  have wet: "\<not> cfg_dry_run ?cfg" by (simp add: example_cfg_def)
  have key: "cfg_api_key ?cfg = Some ''k3y''" "''k3y'' \<noteq> []"
    by (simp_all add: example_cfg_def)
  from run_completes[where env = ?env and docs = "[]" and fs = Missing,
      OF key example_validate example_chain example_record_pages] wet
  obtain eff where m: "main ?cfg ?env [] Missing = Some (0, eff)"
    and d: "mongo_docs eff = store_pages ?env 0 0 [] [example_page1, example_page2]"
    by (simp add: main_def Let_def)
  from envelope_on_stored_documents[OF wet, of ?env _ _ "[]" Missing] m
  have "list_all (\<lambda>d. d \<in> set [] \<or> enveloped ?env d) (mongo_docs eff)" by blast
  then have e: "list_all (enveloped ?env) (mongo_docs eff)" by simp
  have a: "dict_get (the_dict pulse_a) ''run_id'' = JStr ''from the feed''"
    by (simp add: the_dict_def pulse_a_def dict_get_def)
  have r: "map (\<lambda>d. dict_get d ''run_id'') (mongo_docs eff) =
      [JStr ''run-1'', JStr ''run-1'', JStr ''run-1'']"
    unfolding d example_store_run1 by (simp add: dict_get_def)
  have p: "map (\<lambda>d. dict_get d ''page_no'') (mongo_docs eff) = [JInt 1, JInt 1, JInt 2]"
    unfolding d example_store_run1 by (simp add: dict_get_def)
  from m a r p e show ?thesis by - (rule exI[of _ eff], (intro conjI; assumption))
qed

subsection \<open>Upserts across two runs\<close>

lemma stored_doc_id:
  "dict_get (stored_doc env k pno raw) ''id'' =
     dict_get (the_dict (make_mongo_safe (JDict raw))) ''id''"
  "dict_get (stored_doc env k pno raw) ''revision'' =
     dict_get (the_dict (make_mongo_safe (JDict raw))) ''revision''"
  by (simp_all add: stored_doc_def add_envelope_other)

lemma stored_doc_no_hash:
  "''_hash'' \<notin> fst ` set (stored_doc env k pno raw) \<longleftrightarrow>
   ''_hash'' \<notin> fst ` set (the_dict (make_mongo_safe (JDict raw)))"
  by (simp add: stored_doc_def add_envelope_keys)

lemma dict_get_Cons:
  "dict_get ((k, v) # d) k' = (if k' = k then v else dict_get d k')"
  "dict_get [] k' = JNull"
  by (simp_all add: dict_get_def)

lemma natural_key_cases:
  "natural_key env doc =
     (if dict_get doc ''id'' = JNull then [(''_hash'', JInt (env_hash_dumps env doc))]
      else [(''id'', dict_get doc ''id''), (''revision'', dict_get doc ''revision'')])"
  by (simp add: natural_key_def Let_def dict_get_def)

lemma update_one_length:
  "length (update_one flt new coll) =
     (if list_ex (matches flt) coll then length coll else Suc (length coll))"
  by (induction coll) auto

lemma dict_get_absent: "k \<notin> fst ` set d \<Longrightarrow> dict_get d k = JNull"
  by (simp add: dict_get_def map_of_eq_None_iff[THEN iffD2])

lemma written_doc_matches_key:
  assumes dist: "distinct (map fst new)"
    and id: "dict_get new ''id'' \<noteq> JNull"
    and d0: "d0 = flt \<or> matches flt d0"
    and flt: "flt = [(''id'', dict_get new ''id''), (''revision'', dict_get new ''revision'')]"
  shows "matches flt (apply_set new d0)"
proof -
  from id have "''id'' \<in> fst ` set new" using dict_get_absent by blast
  then have i: "dict_get (apply_set new d0) ''id'' = dict_get new ''id''"
    by (simp add: dict_get_apply_set[OF dist])
  have r: "field_matches (dict_get (apply_set new d0) ''revision'') (dict_get new ''revision'')"
  proof (cases "''revision'' \<in> fst ` set new")
    case True
    then show ?thesis by (simp add: dict_get_apply_set[OF dist] field_matches_def)
  next
    case False
    from d0 flt have "field_matches (dict_get d0 ''revision'') (dict_get new ''revision'')"
      by (auto simp: matches_def dict_get_Cons field_matches_def)
    with False show ?thesis by (simp add: dict_get_apply_set[OF dist])
  qed
  from i r show ?thesis by (simp add: flt matches_def field_matches_def)
qed

lemma rerun_replaces_record_with_id:
  assumes id: "dict_get (the_dict (make_mongo_safe (JDict raw))) ''id'' \<noteq> JNull"
  shows "length (upsert_pulse env2 (upsert_pulse env1 coll (stored_doc env1 k1 pno1 raw))
                   (stored_doc env2 k2 pno2 raw)) =
         length (upsert_pulse env1 coll (stored_doc env1 k1 pno1 raw))"
proof -
  let ?doc1 = "stored_doc env1 k1 pno1 raw" and ?doc2 = "stored_doc env2 k2 pno2 raw"
  let ?key = "[(''id'', dict_get ?doc1 ''id''), (''revision'', dict_get ?doc1 ''revision'')]"
  have k1: "natural_key env1 ?doc1 = ?key"
    using id by (simp add: natural_key_cases stored_doc_id)
  have k2: "natural_key env2 ?doc2 = ?key"
    using id by (simp add: natural_key_cases stored_doc_id)
  from update_one_written[of ?doc1 ?key coll]
  obtain d0 where w: "apply_set ?doc1 d0 \<in> set (update_one ?key ?doc1 coll)"
    and d0: "d0 = ?key \<or> matches ?key d0"
    by (auto split: if_splits)
  have "matches ?key (apply_set ?doc1 d0)"
    by (rule written_doc_matches_key[OF stored_doc_distinct _ d0])
       (use id in \<open>simp_all add: stored_doc_id\<close>)
  with w have "list_ex (matches ?key) (update_one ?key ?doc1 coll)"
    by (auto simp: list_ex_iff)
  then show ?thesis by (simp add: upsert_pulse_def k1 k2 update_one_length)
qed

lemma example_store_rerun:
  "length (store_pages (example_env (two_page_session example_page1 example_page2) ''run-1'') 0 0 []
             [example_page1, example_page2]) = 3"
  "length (store_pages (example_env (two_page_session example_page1 example_page2) ''run-2'') 0 0
             (store_pages (example_env (two_page_session example_page1 example_page2) ''run-1'')
                0 0 [] [example_page1, example_page2])
             [example_page1, example_page2]) = 4"
  by code_simp+

lemma example_pulse_c_key:
  "dict_get (the_dict (make_mongo_safe (JDict (the_dict pulse_c)))) ''id'' = JNull"
  "''_hash'' \<notin> fst ` set (the_dict (make_mongo_safe (JDict (the_dict pulse_c))))"
  by (simp_all add: the_dict_def pulse_c_def dict_of_def safe_key_def dict_get_def)

lemma example_fingerprints_differ:
  "env_hash_dumps (example_env s2 ''run-2'') (stored_doc (example_env s2 ''run-2'') 2 2 (the_dict pulse_c)) \<noteq>
   env_hash_dumps (example_env s1 ''run-1'') (stored_doc (example_env s1 ''run-1'') 2 2 (the_dict pulse_c))"
  by (simp add: example_env_def stored_doc_def add_envelope_def the_dict_def pulse_c_def
        dict_of_def safe_key_def str_nat.simps)

text \<open>
  C1 says that running extraction and load twice over the same pages stores no
  document twice. For a record with an \<^verbatim>\<open>id\<close> the second upsert finds the document
  of the first (\<open>rerun_replaces_record_with_id\<close>). For a record without \<^verbatim>\<open>id\<close>
  the key is the fingerprint of the document after the envelope was added, which holds
  the run identifier and the ingestion time of the run: as soon as the two runs'
  fingerprints differ, the second upsert matches nothing and inserts a second
  document beside the first.
\<close>

theorem rerun_duplicates_record_without_id:
  assumes no_id: "dict_get (the_dict (make_mongo_safe (JDict raw))) ''id'' = JNull"
    and no_hash: "''_hash'' \<notin> fst ` set (the_dict (make_mongo_safe (JDict raw)))"
    and differ: "env_hash_dumps env2 (stored_doc env2 k2 pno raw) \<noteq>
                 env_hash_dumps env1 (stored_doc env1 k1 pno raw)"
  shows "upsert_pulse env2 (upsert_pulse env1 [] (stored_doc env1 k1 pno raw))
           (stored_doc env2 k2 pno raw) =
           [apply_set (stored_doc env1 k1 pno raw)
              [(''_hash'', JInt (env_hash_dumps env1 (stored_doc env1 k1 pno raw)))],
            apply_set (stored_doc env2 k2 pno raw)
              [(''_hash'', JInt (env_hash_dumps env2 (stored_doc env2 k2 pno raw)))]]"
proof -
  let ?doc1 = "stored_doc env1 k1 pno raw" and ?doc2 = "stored_doc env2 k2 pno raw"
  have k1: "natural_key env1 ?doc1 = [(''_hash'', JInt (env_hash_dumps env1 ?doc1))]"
    using no_id by (simp add: natural_key_cases stored_doc_id)
  have k2: "natural_key env2 ?doc2 = [(''_hash'', JInt (env_hash_dumps env2 ?doc2))]"
    using no_id by (simp add: natural_key_cases stored_doc_id)
  have "''_hash'' \<notin> fst ` set ?doc1"
    using no_hash by (simp add: stored_doc_no_hash)
  then have h: "dict_get (apply_set ?doc1 [(''_hash'', JInt (env_hash_dumps env1 ?doc1))]) ''_hash''
             = JInt (env_hash_dumps env1 ?doc1)"
    by (simp add: dict_get_apply_set[OF stored_doc_distinct] dict_get_Cons)
  show ?thesis
    using differ by (simp add: upsert_pulse_def k1 k2 matches_def field_matches_def h)
qed

theorem rerun_duplicates_record_without_id_witness:
  "\<exists>e1 e2.
     main (example_cfg (Some ''2025-01-01T00:00:00+00:00'') False)
       (example_env (two_page_session example_page1 example_page2) ''run-1'') [] Missing =
       Some (0, e1) \<and>
     main (example_cfg (Some ''2025-01-01T00:00:00+00:00'') False)
       (example_env (two_page_session example_page1 example_page2) ''run-2'')
       (mongo_docs e1) (watermark_fs e1) = Some (0, e2) \<and>
     length (concat (map records_of [example_page1, example_page2])) = 3 \<and>
     length (mongo_docs e1) = 3 \<and> length (mongo_docs e2) = 4 \<and>
     length (upsert_pulse (example_env (two_page_session example_page1 example_page2) ''run-2'')
               (upsert_pulse (example_env (two_page_session example_page1 example_page2) ''run-1'') []
                  (stored_doc (example_env (two_page_session example_page1 example_page2) ''run-1'')
                     2 2 (the_dict pulse_c)))
               (stored_doc (example_env (two_page_session example_page1 example_page2) ''run-2'')
                  2 2 (the_dict pulse_c))) = 2"
proof -
  let ?cfg = "example_cfg (Some ''2025-01-01T00:00:00+00:00'') False"
  let ?env1 = "example_env (two_page_session example_page1 example_page2) ''run-1''"
  let ?env2 = "example_env (two_page_session example_page1 example_page2) ''run-2''"
  let ?pages = "[example_page1, example_page2]"
  have wet: "\<not> cfg_dry_run ?cfg" by (simp add: example_cfg_def)
  have key: "cfg_api_key ?cfg = Some ''k3y''" "''k3y'' \<noteq> []"
    by (simp_all add: example_cfg_def)
  from run_completes[where env = ?env1 and docs = "[]" and fs = Missing,
      OF key example_validate example_chain example_record_pages] wet
  obtain e1 where m1: "main ?cfg ?env1 [] Missing = Some (0, e1)"
    and d1: "mongo_docs e1 = store_pages ?env1 0 0 [] ?pages"
    by (simp add: main_def Let_def)
  from run_completes[where env = ?env2 and docs = "mongo_docs e1" and fs = "watermark_fs e1",
      OF key example_validate example_chain example_record_pages] wet
  obtain e2 where m2: "main ?cfg ?env2 (mongo_docs e1) (watermark_fs e1) = Some (0, e2)"
    and d2: "mongo_docs e2 = store_pages ?env2 0 0 (mongo_docs e1) ?pages"
    by (simp add: main_def Let_def)
  have l1: "length (mongo_docs e1) = 3" unfolding d1 by (rule example_store_rerun)
  have l2: "length (mongo_docs e2) = 4" unfolding d2 d1 by (rule example_store_rerun)
  have l3: "length (upsert_pulse ?env2 (upsert_pulse ?env1 []
                (stored_doc ?env1 2 2 (the_dict pulse_c)))
              (stored_doc ?env2 2 2 (the_dict pulse_c))) = 2"
    unfolding rerun_duplicates_record_without_id
      [OF example_pulse_c_key example_fingerprints_differ]
    by simp
  from m1 m2 example_count l1 l2 l3 show ?thesis
    by - (rule exI[of _ e1], rule exI[of _ e2], (intro conjI; assumption))
qed


end
